theory Spec2Isabelle
  imports Complex_Main "HOL-Library.Word"
begin

unbundle bit_operations_syntax

section \<open>PCM codec of the relay client (\<^verbatim>\<open>float32ToPCM16Base64\<close>, \<^verbatim>\<open>base64ToArrayBuffer\<close>)\<close>

text \<open>
  An element of a \<^verbatim>\<open>Float32Array\<close>: not-a-number, the two infinities, or a finite value.
  Every finite float32 is a real number; the model admits all reals. The products
  \<^verbatim>\<open>s * 0x8000\<close> and \<^verbatim>\<open>s * 0x7fff\<close> of the source are computed in double precision, where a
  24-bit significand times a 15-bit integer is exact, so exact arithmetic is what the source
  computes on float32 input.
\<close>

datatype float = NaN | NegInf | PosInf | Finite real

type_synonym byte = "8 word"
type_synonym int16 = "16 word"

text \<open>\<^verbatim>\<open>Math.max(-1, Math.min(1, x))\<close>; the result \<open>None\<close> is NaN.\<close>

fun clamp :: "float \<Rightarrow> real option" where
  "clamp NaN = None"
| "clamp NegInf = Some (- 1)"
| "clamp PosInf = Some 1"
| "clamp (Finite x) = Some (max (- 1) (min 1 x))"

text \<open>Rounding towards zero, the integer part that the typed-array store keeps.\<close>

definition js_trunc :: "real \<Rightarrow> int" where
  "js_trunc x = (if x < 0 then \<lceil>x\<rceil> else \<lfloor>x\<rfloor>)"

text \<open>
  The store \<^verbatim>\<open>out[i] = v\<close> into an \<^verbatim>\<open>Int16Array\<close> (ECMAScript \<^verbatim>\<open>ToInt16\<close>): NaN is stored
  as 0, any other number is truncated and reduced modulo \<open>2 ^ 16\<close>.
\<close>

definition ToInt16 :: "real option \<Rightarrow> int16" where
  "ToInt16 v = (case v of None \<Rightarrow> 0 | Some x \<Rightarrow> word_of_int (js_trunc x))"

text \<open>The loop body: \<^verbatim>\<open>s < 0 ? s * 0x8000 : s * 0x7fff\<close> (a comparison with NaN is false).\<close>

definition scale :: "real option \<Rightarrow> real option" where
  "scale s = (case s of None \<Rightarrow> None
                | Some x \<Rightarrow> Some (if x < 0 then x * 32768 else x * 32767))"

definition float32ToPCM16 :: "float list \<Rightarrow> int16 list" where
  "float32ToPCM16 float32 = map (\<lambda>f. ToInt16 (scale (clamp f))) float32"

text \<open>
  \<^verbatim>\<open>new Uint8Array(out.buffer)\<close>: the bytes of the array in the byte order of the platform,
  which is low byte first on the little-endian machines that browsers run on.
\<close>

fun int16_bytes :: "int16 list \<Rightarrow> byte list" where
  "int16_bytes [] = []"
| "int16_bytes (w # ws) = ucast w # ucast (drop_bit 8 w) # int16_bytes ws"

definition b64chars :: string where
  "b64chars = ''ABCDEFGHIJKLMNOPQRSTUVWXYZabcdefghijklmnopqrstuvwxyz0123456789+/''"

definition b64enc :: "nat \<Rightarrow> char" where
  "b64enc n = b64chars ! (n mod 64)"

text \<open>\<^verbatim>\<open>btoa(String.fromCharCode(...bytes))\<close>: standard base64 with padding.\<close>

fun btoa :: "byte list \<Rightarrow> string" where
  "btoa [] = []"
| "btoa [a] = [b64enc (unat a div 4), b64enc (unat a mod 4 * 16), CHR ''='', CHR ''='']"
| "btoa [a, b] =
     [b64enc (unat a div 4), b64enc (unat a mod 4 * 16 + unat b div 16),
      b64enc (unat b mod 16 * 4), CHR ''='']"
| "btoa (a # b # c # rest) =
     [b64enc (unat a div 4), b64enc (unat a mod 4 * 16 + unat b div 16),
      b64enc (unat b mod 16 * 4 + unat c div 64), b64enc (unat c mod 64)] @ btoa rest"

definition float32ToPCM16Base64 :: "float list \<Rightarrow> string" where
  "float32ToPCM16Base64 float32 = btoa (int16_bytes (float32ToPCM16 float32))"


text \<open>
  The value of a base64 alphabet character; \<open>None\<close> for any other character.
\<close>

definition b64val :: "char \<Rightarrow> nat option" where
  "b64val c =
     (let n = (of_char c :: nat) in
      if 65 \<le> n \<and> n \<le> 90 then Some (n - 65)
      else if 97 \<le> n \<and> n \<le> 122 then Some (n - 71)
      else if 48 \<le> n \<and> n \<le> 57 then Some (n + 4)
      else if c = CHR ''+'' then Some 62
      else if c = CHR ''/'' then Some 63
      else None)"

definition ascii_whitespace :: "char \<Rightarrow> bool" where
  "ascii_whitespace c = ((of_char c :: nat) \<in> {9, 10, 12, 13, 32})"

definition strip_padding :: "string \<Rightarrow> string" where
  "strip_padding s =
     (if length s mod 4 = 0 then
        (if 2 \<le> length s \<and> last s = CHR ''='' \<and> last (butlast s) = CHR ''=''
         then butlast (butlast s)
         else if s \<noteq> [] \<and> last s = CHR ''='' then butlast s
         else s)
      else s)"

text \<open>Four 6-bit values give three bytes; a tail of three gives two, a tail of two gives one.\<close>

fun b64_groups :: "nat list \<Rightarrow> byte list" where
  "b64_groups (a # b # c # d # rest) =
     [of_nat (a * 4 + b div 16), of_nat (b mod 16 * 16 + c div 4), of_nat (c mod 4 * 64 + d)]
     @ b64_groups rest"
| "b64_groups [a, b, c] = [of_nat (a * 4 + b div 16), of_nat (b mod 16 * 16 + c div 4)]"
| "b64_groups [a, b] = [of_nat (a * 4 + b div 16)]"
| "b64_groups _ = []"

datatype exn = InvalidCharacterError | InvalidStateError

text \<open>
  The browser's \<^verbatim>\<open>atob\<close> (forgiving-base64 decode of the WHATWG Infra standard): ASCII
  whitespace is removed, one or two trailing \<^verbatim>\<open>=\<close> are removed when the length is a multiple
  of 4, a length of 1 modulo 4 or any character outside the alphabet raises
  \<^verbatim>\<open>InvalidCharacterError\<close>. The binary string it returns is given as its list of char codes.
\<close>

definition atob :: "string \<Rightarrow> exn + byte list" where
  "atob s =
     (let d = strip_padding (filter (\<lambda>c. \<not> ascii_whitespace c) s) in
      if length d mod 4 = 1 then Inl InvalidCharacterError
      else (case those (map b64val d) of
              None \<Rightarrow> Inl InvalidCharacterError
            | Some vs \<Rightarrow> Inr (b64_groups vs)))"

text \<open>
  \<^verbatim>\<open>base64ToArrayBuffer\<close>: the loop copies \<^verbatim>\<open>bin.charCodeAt(i)\<close> into the byte array, which is
  the identity on the list of char codes; an exception of \<^verbatim>\<open>atob\<close> propagates.
\<close>

definition base64ToArrayBuffer :: "string \<Rightarrow> exn + byte list" where
  "base64ToArrayBuffer base64 = (case atob base64 of Inl e \<Rightarrow> Inl e | Inr bin \<Rightarrow> Inr bin)"

text \<open>
  Node's \<^verbatim>\<open>Buffer.from(s, 'base64')\<close>, used by the relay server: it never throws. Decoding stops
  at the first \<^verbatim>\<open>=\<close>, characters outside the standard and the URL-safe alphabet are skipped.
\<close>

definition unbase64 :: "char \<Rightarrow> nat option" where
  "unbase64 c =
     (if c = CHR ''-'' then Some 62 else if c = CHR ''_'' then Some 63 else b64val c)"

definition Buffer_from_base64 :: "string \<Rightarrow> byte list" where
  "Buffer_from_base64 s =
     b64_groups (List.map_filter unbase64 (takeWhile (\<lambda>c. c \<noteq> CHR ''='') s))"

datatype codec_error = MalformedAudioError

text \<open>
  Modelled from the spec: the reading of 16-bit samples in the PCM decoding of \<^verbatim>\<open>./utils\<close>
  (\<^verbatim>\<open>decode\<close>, \<^verbatim>\<open>decodeAudioData\<close>), which \<^verbatim>\<open>index.tsx\<close> imports and which is not among the
  sources. The spec fixes the format as "16-bit little-endian PCM": two bytes give one value,
  low byte first.
\<close>

fun bytes_int16 :: "byte list \<Rightarrow> int16 list" where
  "bytes_int16 (lo # hi # bs) = (ucast lo OR push_bit 8 (ucast hi)) # bytes_int16 bs"
| "bytes_int16 _ = []"

text \<open>
  Modelled from the spec: the PCM decoding of \<^verbatim>\<open>./utils\<close> (\<^verbatim>\<open>decode\<close>, \<^verbatim>\<open>decodeAudioData\<close>), which
  \<^verbatim>\<open>index.tsx\<close> imports and which is not among the sources. The spec: "\<^verbatim>\<open>decode(bytes)\<close>: inverse
  mapping scaled by 32768. Fails with \<^verbatim>\<open>MalformedAudioError\<close> if byte length is not a multiple
  of 2."
\<close>

definition decode :: "byte list \<Rightarrow> codec_error + real list" where
  "decode bs =
     (if length bs mod 2 \<noteq> 0 then Inl MalformedAudioError
      else Inr (map (\<lambda>w. real_of_int (sint w) / 32768) (bytes_int16 bs)))"

section \<open>Messages of the remote speech service and of the transport\<close>

text \<open>
  The fields of \<^verbatim>\<open>LiveServerMessage\<close> that the handlers read. Every field is optional in the
  SDK's types, so each is an option.
\<close>

datatype Blob = Blob (blob_data: "string option") (blob_mimeType: "string option")

datatype Part = Part (part_text: "string option") (part_inlineData: "Blob option")

datatype Content = Content (content_parts: "Part list option")

datatype LiveServerContent =
  LiveServerContent (modelTurn: "Content option") (interrupted: "bool option")

datatype LiveServerMessage = LiveServerMessage (serverContent: "LiveServerContent option")

text \<open>\<^verbatim>\<open>m.serverContent?.modelTurn?.parts\<close>\<close>

definition turn_parts :: "LiveServerMessage \<Rightarrow> Part list option" where
  "turn_parts m = Option.bind (Option.bind (serverContent m) modelTurn) content_parts"

text \<open>The type \<^verbatim>\<open>ToClient\<close> of \<^verbatim>\<open>server.ts\<close>; \<^verbatim>\<open>Audio\<close> carries \<^verbatim>\<open>base64\<close> and \<^verbatim>\<open>mimeType\<close>.\<close>

datatype ToClient = Status string | Text string | Audio string string

section \<open>Playback in the browser (\<^verbatim>\<open>GdmLiveAudio\<close>)\<close>

text \<open>
  The fields of \<^verbatim>\<open>GdmLiveAudio\<close> that the message handlers touch. An
  \<^verbatim>\<open>AudioBufferSourceNode\<close> is a number, fresh at each \<^verbatim>\<open>createBufferSource\<close>; the set
  \<^verbatim>\<open>sources\<close> is the list of its members in insertion order, which is the order a JavaScript
  \<^verbatim>\<open>Set\<close> iterates in. \<open>started\<close> and \<open>stopped\<close> log the calls \<^verbatim>\<open>source.start(t)\<close> and
  \<^verbatim>\<open>source.stop()\<close> made on the output context; \<open>uncaught\<close> logs the exceptions that left an
  \<^verbatim>\<open>async\<close> handler as a rejected promise. Times are seconds on the output clock.
\<close>

record GdmLiveAudio =
  status :: string
  error :: string
  reply :: string
  nextStartTime :: real
  sources :: "nat list"
  next_node :: nat
  started :: "(nat \<times> real) list"
  stopped :: "nat list"
  uncaught :: "exn list"

definition updateStatus :: "string \<Rightarrow> GdmLiveAudio \<Rightarrow> GdmLiveAudio" where
  "updateStatus msg g = g\<lparr>status := msg\<rparr>"

text \<open>\<^verbatim>\<open>this.sources.add(source)\<close> and \<^verbatim>\<open>this.sources.delete(source)\<close>\<close>

definition sources_add :: "nat \<Rightarrow> GdmLiveAudio \<Rightarrow> GdmLiveAudio" where
  "sources_add src g =
     (if src \<in> set (sources g) then g else g\<lparr>sources := sources g @ [src]\<rparr>)"

definition sources_delete :: "nat \<Rightarrow> GdmLiveAudio \<Rightarrow> GdmLiveAudio" where
  "sources_delete src g = g\<lparr>sources := removeAll src (sources g)\<rparr>"

text \<open>
  The scheduling block that both handlers share (\<^verbatim>\<open>index.tsx\<close> lines 138 to 146, the relay
  client's listener lines 105 to 112), for a decoded buffer of duration \<open>dur\<close> when the output
  clock reads \<open>now\<close>. In \<^verbatim>\<open>index.tsx\<close> the decoding is awaited between the first assignment
  and the rest; the block is taken here for a decoding that succeeded, without another handler
  running in between.
\<close>

definition enqueue :: "real \<Rightarrow> real \<Rightarrow> GdmLiveAudio \<Rightarrow> GdmLiveAudio" where
  "enqueue now dur g =
     (let g1 = g\<lparr>nextStartTime := max (nextStartTime g) now\<rparr>;
          src = next_node g1;
          g2 = g1\<lparr>next_node := Suc src\<rparr>;
          g3 = g2\<lparr>started := started g2 @ [(src, nextStartTime g2)]\<rparr>;
          g4 = g3\<lparr>nextStartTime := nextStartTime g3 + dur\<rparr>
      in sources_add src g4)"

text \<open>The listener of the node's \<^verbatim>\<open>ended\<close> event.\<close>

definition ended :: "nat \<Rightarrow> GdmLiveAudio \<Rightarrow> GdmLiveAudio" where
  "ended src g = sources_delete src g"

text \<open>
  \<^verbatim>\<open>source.stop()\<close> raises \<^verbatim>\<open>InvalidStateError\<close> on a node that was never started.
\<close>

definition source_stop :: "nat \<Rightarrow> GdmLiveAudio \<Rightarrow> exn + GdmLiveAudio" where
  "source_stop src g =
     (if src \<in> fst ` set (started g) then Inr (g\<lparr>stopped := stopped g @ [src]\<rparr>)
      else Inl InvalidStateError)"

text \<open>
  The loop \<^verbatim>\<open>for (const source of this.sources) { try { source.stop(); } catch {}
  this.sources.delete(source); }\<close>: the iteration visits the members in insertion order, and
  each pass deletes only the member it visits.
\<close>

fun stop_all :: "nat list \<Rightarrow> GdmLiveAudio \<Rightarrow> GdmLiveAudio" where
  "stop_all [] g = g"
| "stop_all (src # rest) g =
     stop_all rest
       (sources_delete src (case source_stop src g of Inl e \<Rightarrow> g | Inr g' \<Rightarrow> g'))"

definition interrupt :: "GdmLiveAudio \<Rightarrow> GdmLiveAudio" where
  "interrupt g = (stop_all (sources g) g)\<lparr>nextStartTime := 0\<rparr>"

text \<open>\<^verbatim>\<open>String.prototype.toLowerCase\<close> on the letters A to Z, and \<^verbatim>\<open>String.prototype.includes\<close>.\<close>

definition toLowerCase :: "string \<Rightarrow> string" where
  "toLowerCase s =
     map (\<lambda>c. let n = (of_char c :: nat) in
               if 65 \<le> n \<and> n \<le> 90 then char_of (n + 32) else c) s"

fun str_includes :: "string \<Rightarrow> string \<Rightarrow> bool" where
  "str_includes [] t = (t = [])"
| "str_includes (c # s) t = (take (length t) (c # s) = t \<or> str_includes s t)"

text \<open>\<^verbatim>\<open>message.serverContent?.modelTurn?.parts?.[0]\<close>\<close>

definition first_part :: "LiveServerMessage \<Rightarrow> Part option" where
  "first_part m = (case turn_parts m of Some (p # ps) \<Rightarrow> Some p | _ \<Rightarrow> None)"

text \<open>\<^verbatim>\<open>...?.[0]?.text || ''\<close>\<close>

definition textResponse :: "LiveServerMessage \<Rightarrow> string" where
  "textResponse m = (case Option.bind (first_part m) part_text of Some t \<Rightarrow> t | None \<Rightarrow> [])"

text \<open>
  The \<^verbatim>\<open>onmessage\<close> callback of \<^verbatim>\<open>index.tsx\<close>. \<open>dur\<close> stands for
  \<^verbatim>\<open>decodeAudioData(decode(audio.data), ...)\<close> of \<^verbatim>\<open>./utils\<close> on a blob: the exception it raises
  or rejects with, or the duration of the buffer it returns. The call is awaited after the
  assignment of line 138 and nothing catches it: a failure leaves \<^verbatim>\<open>nextStartTime\<close> at the
  maximum, starts nothing, and ends the handler before the interruption block.
\<close>

definition onmessage ::
  "real \<Rightarrow> (Blob \<Rightarrow> exn + real) \<Rightarrow> LiveServerMessage \<Rightarrow> GdmLiveAudio \<Rightarrow> GdmLiveAudio" where
  "onmessage now dur message g =
     (if \<not> str_includes (toLowerCase (textResponse message)) ''revolt''
      then updateStatus ''Blocked off-topic response'' g
      else
        (case (case Option.bind (first_part message) part_inlineData of
                 None \<Rightarrow> Inr g
               | Some audio \<Rightarrow>
                   (case dur audio of
                      Inl e \<Rightarrow> Inl (e, g\<lparr>nextStartTime := max (nextStartTime g) now\<rparr>)
                    | Inr d \<Rightarrow> Inr (enqueue now d g))) of
           Inl (e, g1) \<Rightarrow> g1\<lparr>uncaught := uncaught g1 @ [e]\<rparr>
         | Inr g1 \<Rightarrow>
             if Option.bind (serverContent message) interrupted = Some True
             then interrupt g1 else g1))"

text \<open>
  The \<^verbatim>\<open>message\<close> listener of the relay client, on a frame the relay sent. \<open>decodeAudioData\<close>
  is the output context's decoder: \<open>None\<close> when its promise rejects, else the duration of the
  decoded buffer. The enclosing \<^verbatim>\<open>try { ... } catch {}\<close> swallows every exception.
\<close>

definition ws_onmessage ::
  "real \<Rightarrow> (byte list \<Rightarrow> real option) \<Rightarrow> ToClient \<Rightarrow> GdmLiveAudio \<Rightarrow> GdmLiveAudio" where
  "ws_onmessage now decodeAudioData msg g =
     (case msg of
        Status m \<Rightarrow> g\<lparr>status := m\<rparr>
      | Text t \<Rightarrow> g\<lparr>reply := t\<rparr>
      | Audio base64 mt \<Rightarrow>
          if base64 = [] then g
          else (case base64ToArrayBuffer base64 of
                  Inl e \<Rightarrow> g
                | Inr ab \<Rightarrow>
                    (case decodeAudioData ab of
                       None \<Rightarrow> g
                     | Some d \<Rightarrow> enqueue now d g)))"

text \<open>A run of the scheduler: one \<open>(now, dur)\<close> per enqueue, in order.\<close>

fun enqueue_all :: "(real \<times> real) list \<Rightarrow> GdmLiveAudio \<Rightarrow> GdmLiveAudio" where
  "enqueue_all [] g = g"
| "enqueue_all ((now, dur) # rest) g = enqueue_all rest (enqueue now dur g)"


section \<open>The relay (\<^verbatim>\<open>backend/server.ts\<close>)\<close>

subsection \<open>Validation of client frames\<close>

text \<open>
  A value that \<^verbatim>\<open>JSON.parse\<close> returns. An object is the list of its own properties; a parsed
  object has each key once.
\<close>

datatype json =
  JNull | JBool bool | JNum real | JStr string | JArr "json list" | JObj "(string \<times> json) list"

text \<open>The result type of the schema \<^verbatim>\<open>FromClient\<close>.\<close>

datatype FromClient = ClientText string | ClientAudio string | ClientReset

text \<open>\<^verbatim>\<open>z.string().min(1)\<close> on a property that may be absent; \<open>None\<close> is a validation error.\<close>

fun string_min1 :: "json option \<Rightarrow> string option" where
  "string_min1 (Some (JStr s)) = (if 1 \<le> length s then Some s else None)"
| "string_min1 _ = None"

text \<open>
  \<^verbatim>\<open>FromClient.parse\<close>: a discriminated union on \<^verbatim>\<open>type\<close>; \<open>None\<close> stands for the
  \<^verbatim>\<open>ZodError\<close> it throws. Properties that the schema does not name are ignored.
\<close>

definition FromClient_parse :: "json \<Rightarrow> FromClient option" where
  "FromClient_parse j =
     (case j of
        JObj kvs \<Rightarrow>
          (case map_of kvs ''type'' of
             Some (JStr t) \<Rightarrow>
               if t = ''text'' then map_option ClientText (string_min1 (map_of kvs ''text''))
               else if t = ''audio'' then
                 map_option ClientAudio (string_min1 (map_of kvs ''base64''))
               else if t = ''reset'' then Some ClientReset
               else None
           | _ \<Rightarrow> None)
      | _ \<Rightarrow> None)"

subsection \<open>One client connection\<close>

text \<open>What \<^verbatim>\<open>session.sendRealtimeInput\<close> was called with.\<close>

datatype RealtimeInput = InputText string | InputMedia "byte list"

text \<open>Which caller awaits \<^verbatim>\<open>openSession\<close>: the connection handler or the reset branch.\<close>

datatype caller = Accepting | Resetting

text \<open>
  The closure of one \<^verbatim>\<open>wss.on('connection', ...)\<close> call and the part of its environment that
  the handlers act on.
  \<^item> \<open>ws_open\<close>: \<^verbatim>\<open>ws.readyState === ws.OPEN\<close>.
  \<^item> \<open>session\<close>: the variable \<^verbatim>\<open>session\<close>; an upstream session is a number.
  \<^item> \<open>pending\<close>: an \<^verbatim>\<open>openSession\<close> call is suspended at \<^verbatim>\<open>await client.live.connect\<close>.
  \<^item> \<open>listening\<close>: the \<^verbatim>\<open>message\<close> and \<^verbatim>\<open>close\<close> listeners are registered, which the
    connection handler does after its first \<^verbatim>\<open>openSession\<close> has settled.
  \<^item> \<open>live\<close>: the upstream sessions that are connected and not closed.
  \<^item> \<open>out\<close>: the frames passed to \<^verbatim>\<open>ws.send\<close>; \<open>upstream\<close>: the calls of
    \<^verbatim>\<open>sendRealtimeInput\<close>; \<open>closes\<close>: the calls of \<^verbatim>\<open>Session.close\<close>.
  \<^item> \<open>close_throws\<close>: whether \<^verbatim>\<open>Session.close\<close> throws on a session that is not connected
    any more (the SDK's interface leaves it open).
  \<^item> \<open>unhandled\<close>: exceptions that left an \<^verbatim>\<open>async\<close> listener as a rejected promise.
\<close>

record conn =
  ws_open :: bool
  session :: "nat option"
  pending :: "caller option"
  listening :: bool
  next_sid :: nat
  live :: "nat set"
  out :: "ToClient list"
  upstream :: "(nat \<times> RealtimeInput) list"
  closes :: "nat list"
  close_throws :: bool
  unhandled :: "string list"

text \<open>\<^verbatim>\<open>send\<close>: \<^verbatim>\<open>ws.readyState === ws.OPEN && ws.send(JSON.stringify(msg))\<close>\<close>

definition send :: "ToClient \<Rightarrow> conn \<Rightarrow> conn" where
  "send msg c = (if ws_open c then c\<lparr>out := out c @ [msg]\<rparr> else c)"

text \<open>
  \<^verbatim>\<open>openSession\<close> up to its \<^verbatim>\<open>await\<close>: it returns at once when a session is held, else it
  starts connecting and suspends.
\<close>

definition openSession :: "caller \<Rightarrow> conn \<Rightarrow> conn" where
  "openSession who c = (if session c \<noteq> None then c else c\<lparr>pending := Some who\<rparr>)"

text \<open>The state in which the connection handler waits for its first \<^verbatim>\<open>openSession\<close>.\<close>

definition accept :: "bool \<Rightarrow> conn" where
  "accept ct =
     openSession Accepting
       \<lparr>ws_open = True, session = None, pending = None, listening = False, next_sid = 0,
        live = {}, out = [], upstream = [], closes = [], close_throws = ct, unhandled = []\<rparr>"

text \<open>
  The connection is established: the SDK calls \<^verbatim>\<open>onopen\<close>, \<^verbatim>\<open>connect\<close> resolves, and
  \<^verbatim>\<open>openSession\<close> resumes: it stores the session and sends \<^verbatim>\<open>Session ready\<close>. When the caller is
  the connection handler, the listeners are registered next.
\<close>

definition connect_resolved :: "conn \<Rightarrow> conn" where
  "connect_resolved c =
     (case pending c of
        None \<Rightarrow> c
      | Some who \<Rightarrow>
          let sid = next_sid c;
              c1 = send (Status ''Upstream opened'') c;
              c2 = c1\<lparr>session := Some sid, live := insert sid (live c1),
                      next_sid := Suc sid, pending := None\<rparr>;
              c3 = send (Status ''Session ready'') c2
          in (case who of Accepting \<Rightarrow> c3\<lparr>listening := True\<rparr> | Resetting \<Rightarrow> c3))"

text \<open>
  \<^verbatim>\<open>connect\<close> rejects with message \<open>reason\<close>. The connection handler catches it and reports
  it; the reset branch has no handler around \<^verbatim>\<open>await openSession()\<close>, so there the rejection
  leaves the listener.
\<close>

definition connect_rejected :: "string \<Rightarrow> conn \<Rightarrow> conn" where
  "connect_rejected reason c =
     (case pending c of
        None \<Rightarrow> c
      | Some Accepting \<Rightarrow>
          (send (Status (''Failed to open session: '' @ reason)) (c\<lparr>pending := None\<rparr>))
            \<lparr>listening := True\<rparr>
      | Some Resetting \<Rightarrow> c\<lparr>pending := None, unhandled := unhandled c @ [reason]\<rparr>)"

text \<open>\<^verbatim>\<open>Session.close()\<close> on session \<open>s\<close>.\<close>

definition Session_close :: "nat \<Rightarrow> conn \<Rightarrow> string + conn" where
  "Session_close s c =
     (if s \<in> live c then Inr (c\<lparr>live := live c - {s}, closes := closes c @ [s]\<rparr>)
      else if close_throws c then Inl ''WebSocket is not connected''
      else Inr (c\<lparr>closes := closes c @ [s]\<rparr>))"

definition sendRealtimeInput :: "nat \<Rightarrow> RealtimeInput \<Rightarrow> conn \<Rightarrow> conn" where
  "sendRealtimeInput s x c = c\<lparr>upstream := upstream c @ [(s, x)]\<rparr>"

text \<open>
  The \<^verbatim>\<open>message\<close> listener. \<open>raw\<close> is the result of \<^verbatim>\<open>JSON.parse(raw.toString())\<close>, \<open>None\<close>
  when it throws. \<open>Inl\<close> is an exception that leaves the listener.
\<close>

definition on_message :: "json option \<Rightarrow> conn \<Rightarrow> string + conn" where
  "on_message raw c =
     (case session c of
        None \<Rightarrow> Inr c
      | Some s \<Rightarrow>
          (case Option.bind raw FromClient_parse of
             None \<Rightarrow> Inr (send (Status ''Bad client message'') c)
           | Some ClientReset \<Rightarrow>
               (case Session_close s c of
                  Inl e \<Rightarrow> Inl e
                | Inr c1 \<Rightarrow> Inr (openSession Resetting (c1\<lparr>session := None\<rparr>)))
           | Some (ClientText t) \<Rightarrow> Inr (sendRealtimeInput s (InputText t) c)
           | Some (ClientAudio base64) \<Rightarrow>
               Inr (sendRealtimeInput s (InputMedia (Buffer_from_base64 base64)) c)))"

text \<open>The \<^verbatim>\<open>close\<close> listener: \<^verbatim>\<open>try { session?.close(); } catch {}\<close>\<close>

definition on_close :: "conn \<Rightarrow> conn" where
  "on_close c =
     (case session c of
        None \<Rightarrow> c
      | Some s \<Rightarrow> (case Session_close s c of Inl e \<Rightarrow> c | Inr c1 \<Rightarrow> c1))"

text \<open>The body of the loop of the upstream \<^verbatim>\<open>onmessage\<close> callback, for one part.\<close>

definition forward_part :: "Part \<Rightarrow> conn \<Rightarrow> conn" where
  "forward_part p c =
     (let c1 = (case part_text p of
                  Some t \<Rightarrow> if t \<noteq> [] then send (Text t) c else c
                | None \<Rightarrow> c)
      in case part_inlineData p of
           Some (Blob (Some d) mt) \<Rightarrow>
             if d \<noteq> [] then
               send (Audio d (case mt of None \<Rightarrow> ''audio/pcm; rate=24000'' | Some m \<Rightarrow> m)) c1
             else c1
         | _ \<Rightarrow> c1)"

text \<open>The upstream \<^verbatim>\<open>onmessage\<close> callback: \<^verbatim>\<open>parts ?? []\<close>, then the loop.\<close>

definition upstream_onmessage :: "LiveServerMessage \<Rightarrow> conn \<Rightarrow> conn" where
  "upstream_onmessage m c =
     fold forward_part (case turn_parts m of None \<Rightarrow> [] | Some ps \<Rightarrow> ps) c"

text \<open>
  What can happen to a connection. The upstream events name the session whose callback
  fires; the callbacks of every session this connection created stay registered with the SDK.
\<close>

datatype event =
    ConnectResolved
  | ConnectRejected string
  | WsMessage "json option"
  | WsClose
  | UpstreamMessage nat LiveServerMessage
  | UpstreamError nat string
  | UpstreamClose nat string

text \<open>
  One event. The socket delivers \<^verbatim>\<open>message\<close> and \<^verbatim>\<open>close\<close> only while it is open, and to
  registered listeners only; a callback fires only for a session that exists.
\<close>

fun step :: "event \<Rightarrow> conn \<Rightarrow> conn" where
  "step ConnectResolved c = connect_resolved c"
| "step (ConnectRejected reason) c = connect_rejected reason c"
| "step (WsMessage raw) c =
     (if ws_open c \<and> listening c then
        (case on_message raw c of
           Inl e \<Rightarrow> c\<lparr>unhandled := unhandled c @ [e]\<rparr>
         | Inr c' \<Rightarrow> c')
      else c)"
| "step WsClose c =
     (if ws_open c then
        (let c1 = c\<lparr>ws_open := False\<rparr> in if listening c1 then on_close c1 else c1)
      else c)"
| "step (UpstreamMessage sid m) c = (if sid < next_sid c then upstream_onmessage m c else c)"
| "step (UpstreamError sid msg) c =
     (if sid < next_sid c then send (Status (''Upstream error: '' @ msg)) c else c)"
| "step (UpstreamClose sid reason) c =
     (if sid < next_sid c
      then send (Status (''Upstream closed: '' @ reason)) (c\<lparr>live := live c - {sid}\<rparr>)
      else c)"

definition run :: "event list \<Rightarrow> conn \<Rightarrow> conn" where
  "run evs c = fold step evs c"

text \<open>The frames \<^verbatim>\<open>{"type":"reset"}\<close>, \<^verbatim>\<open>{"type":"text","text":t}\<close> and \<^verbatim>\<open>{"type":"audio","base64":b}\<close>.\<close>

definition reset_frame :: "json option" where
  "reset_frame = Some (JObj [(''type'', JStr ''reset'')])"

definition text_frame :: "string \<Rightarrow> json option" where
  "text_frame t = Some (JObj [(''type'', JStr ''text''), (''text'', JStr t)])"

definition audio_frame :: "string \<Rightarrow> json option" where
  "audio_frame b = Some (JObj [(''type'', JStr ''audio''), (''base64'', JStr b)])"

text \<open>
  The frames that the loop body passes to \<^verbatim>\<open>send\<close> for one part, in the order of its two
  \<^verbatim>\<open>if\<close> statements: a text that is present and not empty, then inline data that is present
  and not empty, with \<^verbatim>\<open>mimeType ?? 'audio/pcm; rate=24000'\<close>.
\<close>

definition part_frames :: "Part \<Rightarrow> ToClient list" where
  "part_frames p =
     (case part_text p of Some t \<Rightarrow> if t \<noteq> [] then [Text t] else [] | None \<Rightarrow> [])
     @ (case part_inlineData p of
          Some (Blob (Some d) mt) \<Rightarrow>
            if d \<noteq> [] then
              [Audio d (case mt of None \<Rightarrow> ''audio/pcm; rate=24000'' | Some m \<Rightarrow> m)]
            else []
        | _ \<Rightarrow> [])"

text \<open>An upstream message whose model turn is the two text parts \<^verbatim>\<open>"Hello"\<close> and \<^verbatim>\<open>" there"\<close>.\<close>

definition hello_there :: LiveServerMessage where
  "hello_there = LiveServerMessage (Some (LiveServerContent
      (Some (Content (Some [Part (Some ''Hello'') None, Part (Some '' there'') None]))) None))"

text \<open>
  An upstream message whose model turn is one part of inline audio and no text, and a player
  that has scheduled nothing yet.
\<close>

definition audio_only :: LiveServerMessage where
  "audio_only = LiveServerMessage (Some (LiveServerContent
      (Some (Content (Some [Part None (Some (Blob (Some ''AAAA'') (Some ''audio/pcm'')))]))) None))"

definition idle :: GdmLiveAudio where
  "idle = \<lparr>status = [], error = [], reply = [], nextStartTime = 0, sources = [],
           next_node = 0, started = [], stopped = [], uncaught = []\<rparr>"

text \<open>
  The start times of a run of the scheduler, computed from the value of \<^verbatim>\<open>nextStartTime\<close> before
  the run, and the start times that a run passes to \<^verbatim>\<open>source.start\<close>, read off the log.
\<close>

fun start_times :: "real \<Rightarrow> (real \<times> real) list \<Rightarrow> real list" where
  "start_times t [] = []"
| "start_times t ((now, dur) # rest) = max t now # start_times (max t now + dur) rest"

definition start_times_of :: "(real \<times> real) list \<Rightarrow> GdmLiveAudio \<Rightarrow> real list" where
  "start_times_of calls g = map snd (drop (length (started g)) (started (enqueue_all calls g)))"

text \<open>
  A player with one buffer of 10 seconds started at time 0, an upstream message that carries
  only the \<^verbatim>\<open>interrupted\<close> flag, one that carries the flag and a text about Revolt, one that
  carries the flag, such a text and inline data that is not base64, and one that carries such
  a text and inline audio.
\<close>

definition playing :: GdmLiveAudio where
  "playing = enqueue 0 10 idle"

definition interrupted_only :: LiveServerMessage where
  "interrupted_only = LiveServerMessage (Some (LiveServerContent None (Some True)))"

definition interrupted_revolt :: LiveServerMessage where
  "interrupted_revolt = LiveServerMessage (Some (LiveServerContent
      (Some (Content (Some [Part (Some ''Revolt RV400'') None]))) (Some True)))"


definition interrupted_revolt_audio :: LiveServerMessage where
  "interrupted_revolt_audio = LiveServerMessage (Some (LiveServerContent
      (Some (Content (Some [Part (Some ''revolt'') (Some (Blob (Some ''!!!!'') None))])))
      (Some True)))"

definition revolt_audio :: LiveServerMessage where
  "revolt_audio = LiveServerMessage (Some (LiveServerContent
      (Some (Content (Some [Part (Some ''revolt'') (Some (Blob (Some ''AAAA'') None))]))) None))"

text \<open>
  The invariant of a connection: a live upstream session is the one the variable \<^verbatim>\<open>session\<close>
  holds; while a connect is awaited the variable is null; session numbers in use are below the
  next fresh one.
\<close>

definition conn_inv :: "conn \<Rightarrow> bool" where
  "conn_inv c \<longleftrightarrow>
     live c \<subseteq> set_option (session c)
     \<and> (pending c = None \<or> session c = None)
     \<and> (\<forall>s \<in> set_option (session c) \<union> live c \<union> set (closes c). s < next_sid c)"

text \<open>
  The connection after a first session, a reset and the replacement session; and the
  connection whose first connect was rejected with message \<^verbatim>\<open>boom\<close>.
\<close>

definition after_reset :: conn where
  "after_reset = run [ConnectResolved, WsMessage reset_frame, ConnectResolved] (accept False)"

definition failed_open :: conn where
  "failed_open = run [ConnectRejected ''boom''] (accept False)"

text \<open>
  The encoding of one sample in the words of the specification: NaN gives 0; otherwise the sample
  is clamped to \<open>[-1, 1]\<close>, a positive value is scaled by 32767 and a negative one by 32768,
  and the integer part is kept.
\<close>

definition encode_sample_spec :: "float \<Rightarrow> int" where
  "encode_sample_spec f =
     (case f of
        NaN \<Rightarrow> 0
      | NegInf \<Rightarrow> - 32768
      | PosInf \<Rightarrow> 32767
      | Finite x \<Rightarrow>
          (let s = (if x < - 1 then - 1 else if 1 < x then 1 else x)
           in js_trunc (if 0 < s then s * 32767 else s * 32768)))"

text \<open>The 6-bit values that \<^verbatim>\<open>btoa\<close> encodes for a list of bytes.\<close>

fun b64digits :: "byte list \<Rightarrow> nat list" where
  "b64digits [] = []"
| "b64digits [a] = [unat a div 4, unat a mod 4 * 16]"
| "b64digits [a, b] = [unat a div 4, unat a mod 4 * 16 + unat b div 16, unat b mod 16 * 4]"
| "b64digits (a # b # c # rest) =
     [unat a div 4, unat a mod 4 * 16 + unat b div 16, unat b mod 16 * 4 + unat c div 64,
      unat c mod 64] @ b64digits rest"

section \<open>Properties\<close>

subsection \<open>The loop over the parts\<close>

lemma forward_part_open:
  "ws_open c \<Longrightarrow> forward_part p c = c\<lparr>out := out c @ part_frames p\<rparr>"
  by (cases p) (auto simp: forward_part_def part_frames_def send_def Let_def
      split: option.splits Blob.splits)

lemma forward_part_closed: "\<not> ws_open c \<Longrightarrow> forward_part p c = c"
  by (auto simp: forward_part_def send_def Let_def split: option.splits Blob.splits)

lemma fold_forward_part_open:
  "ws_open c \<Longrightarrow> fold forward_part ps c = c\<lparr>out := out c @ concat (map part_frames ps)\<rparr>"
proof (induction ps arbitrary: c)
  case Nil
  then show ?case by simp
next
  case (Cons p ps)
  have "ws_open (c\<lparr>out := out c @ part_frames p\<rparr>)" using Cons.prems by simp
  from Cons.IH[OF this] show ?case using Cons.prems by (simp add: forward_part_open)
qed

lemma fold_forward_part_closed: "\<not> ws_open c \<Longrightarrow> fold forward_part ps c = c"
  by (induction ps) (simp_all add: forward_part_closed)

lemma text_parts_frames:
  "[] \<notin> set ts \<Longrightarrow> concat (map part_frames (map (\<lambda>t. Part (Some t) None) ts)) = map Text ts"
  by (induction ts) (auto simp: part_frames_def)

subsection \<open>Forwarding of upstream parts\<close>

text \<open>
  C7. While the socket is open, the upstream \<^verbatim>\<open>onmessage\<close> callback appends to the frames
  sent to the client the frames of each part of the model turn, part by part in the order of the
  list: a part with a non-empty text gives a \<^verbatim>\<open>text\<close> frame with that text, a part with
  non-empty inline data gives an \<^verbatim>\<open>audio\<close> frame with the data and its mime type. A turn of
  text parts only gives exactly their \<^verbatim>\<open>text\<close> frames in order.
\<close>

theorem relay_forwards_parts:
  assumes "ws_open c" and "turn_parts m = Some ps"
  shows "upstream_onmessage m c = c\<lparr>out := out c @ concat (map part_frames ps)\<rparr>
    \<and> (\<forall>ts. ps = map (\<lambda>t. Part (Some t) None) ts \<and> [] \<notin> set ts
          \<longrightarrow> out (upstream_onmessage m c) = out c @ map Text ts)
    \<and> (\<forall>t. t \<noteq> [] \<longrightarrow> part_frames (Part (Some t) None) = [Text t])
    \<and> (\<forall>d mt. d \<noteq> [] \<longrightarrow>
          part_frames (Part None (Some (Blob (Some d) (Some mt)))) = [Audio d mt])"
proof -
  have 1: "upstream_onmessage m c = c\<lparr>out := out c @ concat (map part_frames ps)\<rparr>"
    using assms by (simp add: upstream_onmessage_def fold_forward_part_open)
  have 2: "\<forall>ts. ps = map (\<lambda>t. Part (Some t) None) ts \<and> [] \<notin> set ts
          \<longrightarrow> out (upstream_onmessage m c) = out c @ map Text ts"
  proof (intro allI impI)
    fix ts assume a: "ps = map (\<lambda>t. Part (Some t) None) ts \<and> [] \<notin> set ts"
    then have "concat (map part_frames ps) = map Text ts"
      using text_parts_frames[of ts] by simp
    then show "out (upstream_onmessage m c) = out c @ map Text ts"
      using 1 by simp
  qed
  show ?thesis using 1 2 by (simp add: part_frames_def)
qed

theorem relay_forwards_parts_witness:
  "ws_open (run [ConnectResolved] (accept False))
   \<and> turn_parts hello_there = Some [Part (Some ''Hello'') None, Part (Some '' there'') None]
   \<and> out (upstream_onmessage hello_there (run [ConnectResolved] (accept False)))
       = out (run [ConnectResolved] (accept False)) @ [Text ''Hello'', Text '' there'']"
proof -
  have o: "ws_open (run [ConnectResolved] (accept False))"
    by (simp add: run_def accept_def openSession_def connect_resolved_def send_def)
  have p: "turn_parts hello_there = Some [Part (Some ''Hello'') None, Part (Some '' there'') None]"
    by (simp add: hello_there_def turn_parts_def)
  from relay_forwards_parts[OF o p] show ?thesis using o p by (simp add: part_frames_def)
qed

subsection \<open>Substrings\<close>

lemma take_eq_iff_append: "take (length t) xs = t \<longleftrightarrow> (\<exists>v. xs = t @ v)"
proof
  assume "take (length t) xs = t"
  then have "xs = t @ drop (length t) xs" by (metis append_take_drop_id)
  then show "\<exists>v. xs = t @ v" ..
next
  assume "\<exists>v. xs = t @ v"
  then show "take (length t) xs = t" by auto
qed

lemma str_includes_iff: "str_includes s t \<longleftrightarrow> (\<exists>u v. s = u @ t @ v)"
proof (induction s)
  case Nil
  then show ?case by auto
next
  case (Cons c s)
  have "(\<exists>u v. c # s = u @ t @ v) \<longleftrightarrow> (\<exists>v. c # s = t @ v) \<or> (\<exists>u v. s = u @ t @ v)"
  proof
    assume "\<exists>u v. c # s = u @ t @ v"
    then obtain u v where e: "c # s = u @ t @ v" by blast
    show "(\<exists>v. c # s = t @ v) \<or> (\<exists>u v. s = u @ t @ v)"
    proof (cases u)
      case Nil
      with e show ?thesis by auto
    next
      case (Cons a u')
      with e have "s = u' @ t @ v" by simp
      then show ?thesis by blast
    qed
  next
    assume "(\<exists>v. c # s = t @ v) \<or> (\<exists>u v. s = u @ t @ v)"
    then show "\<exists>u v. c # s = u @ t @ v"
    proof
      assume "\<exists>v. c # s = t @ v"
      then obtain v where "c # s = [] @ t @ v" by auto
      then show ?thesis by blast
    next
      assume "\<exists>u v. s = u @ t @ v"
      then obtain u v where "c # s = (c # u) @ t @ v" by auto
      then show ?thesis by blast
    qed
  qed
  then show ?case using Cons.IH by (simp add: take_eq_iff_append del: take_Suc_Cons)
qed

lemma textResponse_no_text:
  "Option.bind (first_part m) part_text = None \<Longrightarrow> textResponse m = []"
  by (simp add: textResponse_def)

subsection \<open>The keyword gate of the direct client\<close>

text \<open>
  C10. In \<^verbatim>\<open>index.tsx\<close>, when the lower-cased text of the first part of the model turn does not
  contain \<^verbatim>\<open>revolt\<close> as a substring, the handler only sets the status to
  \<^verbatim>\<open>Blocked off-topic response\<close>: nothing is started, the set of sources and
  \<^verbatim>\<open>nextStartTime\<close> stay as they were. A message whose first part has no text, audio-only
  turns included, is such a message.
\<close>

theorem offtopic_blocked:
  "(\<not> (\<exists>u v. toLowerCase (textResponse m) = u @ ''revolt'' @ v) \<longrightarrow>
      onmessage now dur m g = g\<lparr>status := ''Blocked off-topic response''\<rparr>
      \<and> started (onmessage now dur m g) = started g
      \<and> sources (onmessage now dur m g) = sources g
      \<and> nextStartTime (onmessage now dur m g) = nextStartTime g)
   \<and> (Option.bind (first_part m) part_text = None \<longrightarrow>
      onmessage now dur m g = g\<lparr>status := ''Blocked off-topic response''\<rparr>)"
proof -
  have a: "onmessage now dur m g = g\<lparr>status := ''Blocked off-topic response''\<rparr>"
    if "\<not> (\<exists>u v. toLowerCase (textResponse m) = u @ ''revolt'' @ v)"
  proof -
    have "\<not> str_includes (toLowerCase (textResponse m)) ''revolt''"
      using that by (simp only: str_includes_iff not_False_eq_True)
    then show ?thesis by (simp add: onmessage_def updateStatus_def)
  qed
  have b: "\<not> (\<exists>u v. toLowerCase (textResponse m) = u @ ''revolt'' @ v)"
    if "Option.bind (first_part m) part_text = None"
    using textResponse_no_text[OF that] by (simp add: toLowerCase_def)
  show ?thesis using a b by auto
qed

theorem offtopic_blocked_witness:
  "\<not> (\<exists>u v. toLowerCase (textResponse audio_only) = u @ ''revolt'' @ v)
   \<and> Option.bind (first_part audio_only) part_text = None
   \<and> first_part audio_only = Some (Part None (Some (Blob (Some ''AAAA'') (Some ''audio/pcm''))))
   \<and> onmessage 3 (\<lambda>b. Inr 1) audio_only idle = idle\<lparr>status := ''Blocked off-topic response''\<rparr>
   \<and> started (onmessage 3 (\<lambda>b. Inr 1) audio_only idle) = []"
proof -
  have t: "textResponse audio_only = []"
    by (simp add: textResponse_def first_part_def turn_parts_def audio_only_def)
  have h: "\<not> (\<exists>u v. toLowerCase (textResponse audio_only) = u @ ''revolt'' @ v)"
    by (simp add: t toLowerCase_def)
  have f: "first_part audio_only = Some (Part None (Some (Blob (Some ''AAAA'') (Some ''audio/pcm''))))"
    by (simp add: first_part_def turn_parts_def audio_only_def)
  from offtopic_blocked[of audio_only 3 "\<lambda>b. Inr 1" idle] show ?thesis
    using h f by (simp add: idle_def)
qed

subsection \<open>The playback scheduler\<close>

lemma enqueue_eq:
  "enqueue now dur g =
     g\<lparr>nextStartTime := max (nextStartTime g) now + dur,
       next_node := Suc (next_node g),
       started := started g @ [(next_node g, max (nextStartTime g) now)],
       sources := (if next_node g \<in> set (sources g) then sources g
                   else sources g @ [next_node g])\<rparr>"
  by (simp add: enqueue_def sources_add_def Let_def)

lemma started_enqueue_all:
  "started (enqueue_all calls g) =
     started g @ zip [next_node g ..< next_node g + length calls]
                     (start_times (nextStartTime g) calls)"
proof (induction calls arbitrary: g)
  case Nil
  then show ?case by simp
next
  case (Cons c calls)
  obtain now dur where c: "c = (now, dur)" by (cases c)
  have u: "[next_node g ..< Suc (next_node g + length calls)] =
           next_node g # [Suc (next_node g) ..< Suc (next_node g + length calls)]"
    by (subst upt_conv_Cons) simp_all
  show ?case
    unfolding c enqueue_all.simps start_times.simps Cons.IH
    by (simp add: enqueue_eq u del: upt_Suc)
qed

lemma start_times_length: "length (start_times t calls) = length calls"
  by (induction calls arbitrary: t) auto

lemma start_times_of_eq: "start_times_of calls g = start_times (nextStartTime g) calls"
  by (simp add: start_times_of_def started_enqueue_all start_times_length)

lemma start_times_chain:
  "Suc i < length calls \<Longrightarrow>
   fst (calls ! Suc i) \<le> start_times t calls ! i + snd (calls ! i) \<Longrightarrow>
   start_times t calls ! Suc i = start_times t calls ! i + snd (calls ! i)"
proof (induction calls arbitrary: t i)
  case Nil
  then show ?case by simp
next
  case (Cons c calls)
  obtain now dur where c: "c = (now, dur)" by (cases c)
  show ?case
  proof (cases i)
    case 0
    with Cons.prems obtain now' dur' rest where r: "calls = (now', dur') # rest"
      by (cases calls) auto
    from Cons.prems(2) show ?thesis unfolding 0 c r by simp
  next
    case (Suc j)
    with Cons.prems have "Suc j < length calls"
      and "fst (calls ! Suc j) \<le> start_times (max t now + dur) calls ! j + snd (calls ! j)"
      by (simp_all add: c)
    from Cons.IH[OF this] show ?thesis by (simp add: Suc c)
  qed
qed

text \<open>
  C5. An enqueue starts the new node at \<open>max nextStartTime now\<close>, leaves \<^verbatim>\<open>nextStartTime\<close> at
  that time plus the buffer's duration and adds the node to the set of sources; the \<^verbatim>\<open>ended\<close>
  listener removes it. Both handlers schedule through this block. In a run of enqueues, whenever
  call \<open>i + 1\<close> is made no later than the end of segment \<open>i\<close>, segment \<open>i + 1\<close> starts
  exactly at that end: \<open>start (i + 1) = start i + duration i\<close>.
\<close>

theorem enqueue_chain:
  "started (enqueue now dur g) = started g @ [(next_node g, max (nextStartTime g) now)]
   \<and> nextStartTime (enqueue now dur g) = max (nextStartTime g) now + dur
   \<and> set (sources (enqueue now dur g)) = insert (next_node g) (set (sources g))
   \<and> set (sources (ended src g)) = set (sources g) - {src}
   \<and> (b \<noteq> [] \<and> base64ToArrayBuffer b = Inr ab \<and> decodeAudioData ab = Some dur \<longrightarrow>
        ws_onmessage now decodeAudioData (Audio b mt) g = enqueue now dur g)
   \<and> ((\<exists>u v. toLowerCase (textResponse m) = u @ ''revolt'' @ v)
        \<and> Option.bind (first_part m) part_inlineData = Some audio
        \<and> durs audio = Inr d
        \<and> Option.bind (serverContent m) interrupted \<noteq> Some True \<longrightarrow>
        onmessage now durs m g = enqueue now d g)
   \<and> length (start_times_of calls g) = length calls
   \<and> (\<forall>i. Suc i < length calls
            \<and> fst (calls ! Suc i) \<le> start_times_of calls g ! i + snd (calls ! i)
          \<longrightarrow> start_times_of calls g ! Suc i = start_times_of calls g ! i + snd (calls ! i))"
proof -
  have 1: "set (sources (enqueue now dur g)) = insert (next_node g) (set (sources g))"
    by (auto simp: enqueue_eq)
  have 2: "set (sources (ended src g)) = set (sources g) - {src}"
    by (auto simp: ended_def sources_delete_def)
  have 3: "\<forall>i. Suc i < length calls
            \<and> fst (calls ! Suc i) \<le> start_times_of calls g ! i + snd (calls ! i)
          \<longrightarrow> start_times_of calls g ! Suc i = start_times_of calls g ! i + snd (calls ! i)"
    unfolding start_times_of_eq using start_times_chain by blast
  have 4: "ws_onmessage now decodeAudioData (Audio b mt) g = enqueue now dur g"
    if "b \<noteq> [] \<and> base64ToArrayBuffer b = Inr ab \<and> decodeAudioData ab = Some dur"
    using that by (simp add: ws_onmessage_def)
  have 5: "onmessage now durs m g = enqueue now d g"
    if "\<exists>u v. toLowerCase (textResponse m) = u @ ''revolt'' @ v"
      and "Option.bind (first_part m) part_inlineData = Some audio"
      and "durs audio = Inr d"
      and "Option.bind (serverContent m) interrupted \<noteq> Some True"
  proof -
    have "str_includes (toLowerCase (textResponse m)) ''revolt''"
      using that(1) by (simp only: str_includes_iff)
    then show ?thesis using that(2,3,4) by (simp add: onmessage_def)
  qed
  have 6: "started (enqueue now dur g) = started g @ [(next_node g, max (nextStartTime g) now)]
   \<and> nextStartTime (enqueue now dur g) = max (nextStartTime g) now + dur
   \<and> length (start_times_of calls g) = length calls"
    by (simp add: enqueue_eq start_times_of_eq start_times_length)
  show ?thesis using 1 2 3 4 5 6 by blast
qed

theorem enqueue_chain_witness:
  "Suc 0 < length [(1, 2), (3 / 2, 1), (10, 1 :: real)]
   \<and> fst ([(1, 2), (3 / 2, 1), (10, 1 :: real)] ! Suc 0)
       \<le> start_times_of [(1, 2), (3 / 2, 1), (10, 1)] idle ! 0
          + snd ([(1, 2), (3 / 2, 1), (10, 1 :: real)] ! 0)
   \<and> start_times_of [(1, 2), (3 / 2, 1), (10, 1)] idle = [1, 3, 10]
   \<and> ''AAAA'' \<noteq> [] \<and> base64ToArrayBuffer ''AAAA'' = Inr [0, 0, 0]
   \<and> started (ws_onmessage 1 (\<lambda>ab. Some 2) (Audio ''AAAA'' ''audio/pcm'') idle) = [(0, 1)]
   \<and> (\<exists>u v. toLowerCase (textResponse revolt_audio) = u @ ''revolt'' @ v)
   \<and> Option.bind (first_part revolt_audio) part_inlineData = Some (Blob (Some ''AAAA'') None)
   \<and> Option.bind (serverContent revolt_audio) interrupted \<noteq> Some True
   \<and> started (onmessage 1 (\<lambda>b. Inr 2) revolt_audio idle) = [(0, 1)]"
proof -
  have s: "start_times_of [(1, 2), (3 / 2, 1), (10, 1)] idle = [1, 3, 10]"
    by (simp add: start_times_of_def enqueue_eq idle_def)
  have d: "base64ToArrayBuffer ''AAAA'' = Inr [0, 0, 0]"
    by (simp add: base64ToArrayBuffer_def atob_def strip_padding_def ascii_whitespace_def
        b64val_def)
  have t: "toLowerCase (textResponse revolt_audio) = [] @ ''revolt'' @ []"
    unfolding textResponse_def first_part_def turn_parts_def revolt_audio_def
    by code_simp
  then have h: "\<exists>u v. toLowerCase (textResponse revolt_audio) = u @ ''revolt'' @ v"
    by blast
  have f: "Option.bind (first_part revolt_audio) part_inlineData = Some (Blob (Some ''AAAA'') None)"
    "Option.bind (serverContent revolt_audio) interrupted \<noteq> Some True"
    by (simp_all add: first_part_def turn_parts_def revolt_audio_def)
  have i: "started idle = [] \<and> next_node idle = 0 \<and> nextStartTime idle = 0"
    by (simp add: idle_def)
  from enqueue_chain[of 1 2 idle 0 "''AAAA''" "[0, 0, 0]" "\<lambda>ab. Some 2" "''audio/pcm''"
      revolt_audio "Blob (Some ''AAAA'') None" "\<lambda>b. Inr 2" 2
      "[(1, 2), (3 / 2, 1), (10, 1)]"]
  show ?thesis using s d h f i by simp
qed

lemma filter_neq_flip:
  "filter (\<lambda>y. x \<noteq> y \<and> P y) ys = filter (\<lambda>s. s \<noteq> x \<and> P s) ys"
  by (rule filter_cong) auto

lemma stop_all_eq:
  "stop_all xs g =
     g\<lparr>sources := filter (\<lambda>s. s \<notin> set xs) (sources g),
       stopped := stopped g @ filter (\<lambda>s. s \<in> fst ` set (started g)) xs\<rparr>"
proof (induction xs arbitrary: g)
  case Nil
  then show ?case by simp
next
  case (Cons x xs)
  show ?case
    unfolding stop_all.simps Cons.IH
    by (simp add: source_stop_def sources_delete_def removeAll_filter_not_eq filter_neq_flip)
qed

lemma interrupt_eq:
  "interrupt g =
     g\<lparr>sources := [],
       stopped := stopped g @ filter (\<lambda>s. s \<in> fst ` set (started g)) (sources g),
       nextStartTime := 0\<rparr>"
  by (simp add: interrupt_def stop_all_eq)

text \<open>
  The interruption block of \<^verbatim>\<open>index.tsx\<close> (lines 150 to 156) calls \<^verbatim>\<open>stop\<close> on every member of
  the set of sources (an exception of \<^verbatim>\<open>stop\<close>, raised for a node that was never started, is
  swallowed), empties the set and leaves \<^verbatim>\<open>nextStartTime\<close> at 0; it is idempotent, and the next
  enqueue then starts at the clock's current time. The handler reaches the block when the
  message carries the \<^verbatim>\<open>interrupted\<close> flag, passes the keyword gate, and either has no inline
  data in its first part or the decoding of that data succeeds.
\<close>

lemma interrupt_block:
  "((\<exists>u v. toLowerCase (textResponse m) = u @ ''revolt'' @ v)
      \<and> Option.bind (serverContent m) interrupted = Some True
      \<and> (Option.bind (first_part m) part_inlineData = None
          \<or> (\<exists>audio d. Option.bind (first_part m) part_inlineData = Some audio
                \<and> dur audio = Inr d)) \<longrightarrow>
      sources (onmessage now dur m g) = [] \<and> nextStartTime (onmessage now dur m g) = 0)
   \<and> sources (interrupt g) = [] \<and> nextStartTime (interrupt g) = 0
   \<and> stopped (interrupt g) = stopped g @ filter (\<lambda>s. s \<in> fst ` set (started g)) (sources g)
   \<and> interrupt (interrupt g) = interrupt g
   \<and> (0 \<le> t \<longrightarrow> started (enqueue t d' (interrupt g)) = started g @ [(next_node g, t)])"
proof -
  have a: "sources (onmessage now dur m g) = [] \<and> nextStartTime (onmessage now dur m g) = 0"
    if "\<exists>u v. toLowerCase (textResponse m) = u @ ''revolt'' @ v"
      and "Option.bind (serverContent m) interrupted = Some True"
      and "Option.bind (first_part m) part_inlineData = None
          \<or> (\<exists>audio d. Option.bind (first_part m) part_inlineData = Some audio
                \<and> dur audio = Inr d)"
  proof -
    have "str_includes (toLowerCase (textResponse m)) ''revolt''"
      using that(1) by (simp only: str_includes_iff)
    then show ?thesis using that(2,3)
      by (auto simp: onmessage_def interrupt_eq)
  qed
  have b: "interrupt (interrupt g) = interrupt g"
    by (simp add: interrupt_eq)
  show ?thesis using a b by (auto simp: interrupt_eq enqueue_eq)
qed

lemma interrupt_block_example:
  "(\<exists>u v. toLowerCase (textResponse interrupted_revolt) = u @ ''revolt'' @ v)
   \<and> Option.bind (serverContent interrupted_revolt) interrupted = Some True
   \<and> Option.bind (first_part interrupted_revolt) part_inlineData = None
   \<and> sources playing = [0]
   \<and> sources (onmessage 5 (\<lambda>b. Inr 1) interrupted_revolt playing) = []
   \<and> nextStartTime (onmessage 5 (\<lambda>b. Inr 1) interrupted_revolt playing) = 0
   \<and> (0::real) \<le> 5
   \<and> started (enqueue 5 1 (interrupt playing)) = [(0, 0), (1, 5)]"
proof -
  have t: "toLowerCase (textResponse interrupted_revolt) = [] @ ''revolt'' @ '' rv400''"
    unfolding textResponse_def first_part_def turn_parts_def interrupted_revolt_def
    by code_simp
  then have h: "\<exists>u v. toLowerCase (textResponse interrupted_revolt) = u @ ''revolt'' @ v"
    by blast
  have i: "Option.bind (serverContent interrupted_revolt) interrupted = Some True"
    "Option.bind (first_part interrupted_revolt) part_inlineData = None"
    by (simp_all add: interrupted_revolt_def first_part_def turn_parts_def)
  have p: "sources playing = [0] \<and> started playing = [(0, 0)] \<and> next_node playing = 1"
    by (simp add: playing_def enqueue_eq idle_def)
  from interrupt_block[of interrupted_revolt "\<lambda>b. Inr 1" 5 playing 5 1] show ?thesis
    using h i p by simp
qed

text \<open>
  C6. The claim fails on the code: a message that carries the \<^verbatim>\<open>interrupted\<close> flag and no text
  stops at the keyword gate of \<^verbatim>\<open>index.tsx\<close> (lines 130 to 133), ahead of the block that the
  source announces as "Stop audio on interruption". The buffer that is playing is neither
  stopped nor removed from the set of sources, and \<^verbatim>\<open>nextStartTime\<close> keeps its value.
\<close>

theorem interrupted_flag_blocked:
  "sources playing = [0]
   \<and> Option.bind (serverContent interrupted_only) interrupted = Some True
   \<and> sources (onmessage 5 (\<lambda>b. Inr 1) interrupted_only playing) = [0]
   \<and> stopped (onmessage 5 (\<lambda>b. Inr 1) interrupted_only playing) = []
   \<and> nextStartTime (onmessage 5 (\<lambda>b. Inr 1) interrupted_only playing) = 10
   \<and> status (onmessage 5 (\<lambda>b. Inr 1) interrupted_only playing) = ''Blocked off-topic response''"
  by (simp add: onmessage_def updateStatus_def interrupted_only_def textResponse_def
      first_part_def turn_parts_def toLowerCase_def playing_def enqueue_eq idle_def)

text \<open>
  The block is skipped as well when a message with the flag passes the gate and the decoding of
  its inline data fails: the exception leaves the handler at line 139 and the buffer that is
  playing goes on.
\<close>

lemma interrupt_skipped_on_decode_failure:
  "sources (onmessage 5 (\<lambda>b. Inl InvalidCharacterError) interrupted_revolt_audio playing) = [0]
   \<and> stopped (onmessage 5 (\<lambda>b. Inl InvalidCharacterError) interrupted_revolt_audio playing) = []
   \<and> nextStartTime (onmessage 5 (\<lambda>b. Inl InvalidCharacterError) interrupted_revolt_audio playing)
       = 10
   \<and> uncaught (onmessage 5 (\<lambda>b. Inl InvalidCharacterError) interrupted_revolt_audio playing)
       = [InvalidCharacterError]"
proof -
  have t: "str_includes (toLowerCase (textResponse interrupted_revolt_audio)) ''revolt''"
    unfolding textResponse_def first_part_def turn_parts_def interrupted_revolt_audio_def
    by code_simp
  have f: "Option.bind (first_part interrupted_revolt_audio) part_inlineData
             = Some (Blob (Some ''!!!!'') None)"
    by (simp add: first_part_def turn_parts_def interrupted_revolt_audio_def)
  show ?thesis
    by (simp add: onmessage_def t f playing_def enqueue_eq idle_def)
qed

subsection \<open>The connection invariant\<close>

lemma send_fields [simp]:
  "ws_open (send x c) = ws_open c" "session (send x c) = session c"
  "pending (send x c) = pending c" "listening (send x c) = listening c"
  "next_sid (send x c) = next_sid c" "live (send x c) = live c"
  "upstream (send x c) = upstream c" "closes (send x c) = closes c"
  "close_throws (send x c) = close_throws c" "unhandled (send x c) = unhandled c"
  by (simp_all add: send_def)

lemma out_send: "out (send x c) = (if ws_open c then out c @ [x] else out c)"
  by (simp add: send_def)

lemma upstream_onmessage_eq:
  "upstream_onmessage m c =
     (if ws_open c
      then c\<lparr>out := out c @ concat (map part_frames (case turn_parts m of None \<Rightarrow> [] | Some ps \<Rightarrow> ps))\<rparr>
      else c)"
  by (simp add: upstream_onmessage_def fold_forward_part_open fold_forward_part_closed)

lemma accept_inv: "conn_inv (accept ct)"
  by (simp add: conn_inv_def accept_def openSession_def)

lemma connect_resolved_inv: "conn_inv c \<Longrightarrow> conn_inv (connect_resolved c)"
  by (auto simp: conn_inv_def connect_resolved_def Let_def less_Suc_eq
      split: option.splits caller.splits)

lemma connect_rejected_inv: "conn_inv c \<Longrightarrow> conn_inv (connect_rejected r c)"
  by (auto simp: conn_inv_def connect_rejected_def split: option.splits caller.splits)

lemma on_message_inv: "conn_inv c \<Longrightarrow> on_message raw c = Inr c' \<Longrightarrow> conn_inv c'"
  by (auto simp: conn_inv_def on_message_def Session_close_def openSession_def
      sendRealtimeInput_def split: option.splits FromClient.splits sum.splits if_splits)

lemma on_close_inv: "conn_inv c \<Longrightarrow> conn_inv (on_close c)"
  by (auto simp: conn_inv_def on_close_def Session_close_def split: option.splits if_splits)

lemma inv_unhandled: "conn_inv (c\<lparr>unhandled := u\<rparr>) = conn_inv c"
  by (simp add: conn_inv_def)

lemma inv_ws_open: "conn_inv (c\<lparr>ws_open := b\<rparr>) = conn_inv c"
  by (simp add: conn_inv_def)

lemma inv_out: "conn_inv (c\<lparr>out := b\<rparr>) = conn_inv c"
  by (simp add: conn_inv_def)

lemma step_inv: "conn_inv c \<Longrightarrow> conn_inv (step e c)"
proof (cases e)
  case ConnectResolved
  then show "conn_inv c \<Longrightarrow> ?thesis" by (simp add: connect_resolved_inv)
next
  case (ConnectRejected r)
  then show "conn_inv c \<Longrightarrow> ?thesis" by (simp add: connect_rejected_inv)
next
  case (WsMessage raw)
  then show "conn_inv c \<Longrightarrow> ?thesis"
    by (auto simp: inv_unhandled split: sum.splits dest: on_message_inv)
next
  case WsClose
  then show "conn_inv c \<Longrightarrow> ?thesis"
    by (auto simp: Let_def inv_ws_open intro: on_close_inv)
next
  case (UpstreamMessage sid m)
  then show "conn_inv c \<Longrightarrow> ?thesis" by (simp add: upstream_onmessage_eq inv_out)
next
  case (UpstreamError sid msg)
  then show "conn_inv c \<Longrightarrow> ?thesis" by (auto simp: conn_inv_def)
next
  case (UpstreamClose sid reason)
  then show "conn_inv c \<Longrightarrow> ?thesis" by (auto simp: conn_inv_def)
qed

lemma run_inv: "conn_inv c \<Longrightarrow> conn_inv (run evs c)"
  unfolding run_def by (induction evs arbitrary: c) (simp_all add: step_inv)

lemma reachable_inv: "conn_inv (run evs (accept ct))"
  by (rule run_inv[OF accept_inv])

lemma inv_live_cases: "conn_inv c \<Longrightarrow> live c = {} \<or> (\<exists>s. session c = Some s \<and> live c = {s})"
  by (cases "session c") (auto simp: conn_inv_def)

lemma step_reset:
  assumes "conn_inv c" "ws_open c" "listening c" "session c = Some s"
    "s \<in> live c \<or> \<not> close_throws c"
  shows "step (WsMessage reset_frame) c =
           c\<lparr>live := {}, closes := closes c @ [s], session := None, pending := Some Resetting\<rparr>"
proof -
  have p: "Option.bind reset_frame FromClient_parse = Some ClientReset"
    by (simp add: reset_frame_def FromClient_parse_def)
  have l: "live c - {s} = {}" "s \<notin> live c \<Longrightarrow> live c = {}"
    using assms(1,4) by (auto simp: conn_inv_def)
  show ?thesis using assms(2-5) l
    by (auto simp: on_message_def p Session_close_def openSession_def)
qed

lemma step_message_no_session: "session c = None \<Longrightarrow> step (WsMessage raw) c = c"
  by (simp add: on_message_def)

lemma run_messages_no_session: "session c = None \<Longrightarrow> run (map WsMessage raws) c = c"
  unfolding run_def by (induction raws) (simp_all add: on_message_def)

subsection \<open>Session lifecycle of a connection\<close>

text \<open>
  C1, as amended. In every state that a connection reaches from its acceptance, the live
  upstream sessions are among the one session the variable \<^verbatim>\<open>session\<close> holds, so there is at
  most one. Accepting starts a connect. A reset received while a session is held closes it,
  discards the reference and only then starts the next connect, whose session is a fresh one; a
  reset received while no session is held is dropped and starts nothing. Once the listeners
  are registered, the \<^verbatim>\<open>close\<close> listener lets no exception escape, whether a session is held,
  already closed or none, and it closes the session held at that moment, after which none is
  live.
\<close>

theorem one_live_session:
  assumes "c = run evs (accept ct)"
  shows "live c \<subseteq> set_option (session c) \<and> card (live c) \<le> 1
    \<and> pending (accept ct) = Some Accepting
    \<and> (ws_open c \<and> listening c \<and> session c = Some s \<and> (s \<in> live c \<or> \<not> close_throws c) \<longrightarrow>
         step (WsMessage reset_frame) c =
           c\<lparr>live := {}, closes := closes c @ [s], session := None, pending := Some Resetting\<rparr>)
    \<and> (session c = None \<longrightarrow> step (WsMessage reset_frame) c = c)
    \<and> (pending c \<noteq> None \<longrightarrow>
         session (step ConnectResolved c) = Some (next_sid c)
         \<and> live (step ConnectResolved c) = {next_sid c}
         \<and> next_sid c \<notin> set (closes c))
    \<and> unhandled (step WsClose c) = unhandled c
    \<and> (ws_open c \<and> listening c \<longrightarrow>
         live (step WsClose c) = {}
         \<and> closes (step WsClose c)
             = closes c @ (case session c of None \<Rightarrow> []
                 | Some s' \<Rightarrow> if s' \<in> live c \<or> \<not> close_throws c then [s'] else []))"
proof -
  have i: "conn_inv c" unfolding assms by (rule reachable_inv)
  have 1: "live c \<subseteq> set_option (session c)" using i by (simp add: conn_inv_def)
  have 2: "card (live c) \<le> 1" using inv_live_cases[OF i] by auto
  have 3: "pending (accept ct) = Some Accepting" by (simp add: accept_def openSession_def)
  have 4: "step (WsMessage reset_frame) c =
           c\<lparr>live := {}, closes := closes c @ [s], session := None, pending := Some Resetting\<rparr>"
    if "ws_open c \<and> listening c \<and> session c = Some s \<and> (s \<in> live c \<or> \<not> close_throws c)"
    using that step_reset[OF i, of s] by blast
  have 5: "session (step ConnectResolved c) = Some (next_sid c)
         \<and> live (step ConnectResolved c) = {next_sid c}
         \<and> next_sid c \<notin> set (closes c)"
    if "pending c \<noteq> None"
  proof -
    from that i have "session c = None" "live c = {}" by (auto simp: conn_inv_def)
    moreover have "next_sid c \<notin> set (closes c)" using i by (auto simp: conn_inv_def)
    ultimately show ?thesis using that
      by (auto simp: connect_resolved_def Let_def split: caller.splits)
  qed
  have 6: "unhandled (step WsClose c) = unhandled c"
    by (simp add: on_close_def Session_close_def Let_def split: option.splits)
  have 7: "live (step WsClose c) = {}
         \<and> closes (step WsClose c)
             = closes c @ (case session c of None \<Rightarrow> []
                 | Some s' \<Rightarrow> if s' \<in> live c \<or> \<not> close_throws c then [s'] else [])"
    if "ws_open c \<and> listening c"
    using that inv_live_cases[OF i] 1
    by (auto simp: on_close_def Session_close_def Let_def split: option.splits)
  have 8: "step (WsMessage reset_frame) c = c" if "session c = None"
    by (simp only: step_message_no_session[OF that])
  show ?thesis using 1 2 3 4 5 6 7 8 by blast
qed


lemma run_Cons: "run (e # evs) c = run evs (step e c)"
  by (simp add: run_def)

lemma run_Nil: "run [] c = c"
  by (simp add: run_def)

lemma accept_eq:
  "accept ct =
     \<lparr>ws_open = True, session = None, pending = Some Accepting, listening = False,
      next_sid = 0, live = {}, out = [], upstream = [], closes = [], close_throws = ct,
      unhandled = []\<rparr>"
  by (simp add: accept_def openSession_def)

lemma first_session:
  "run [ConnectResolved] (accept ct) =
     \<lparr>ws_open = True, session = Some 0, pending = None, listening = True,
      next_sid = Suc 0, live = {0}, out = [Status ''Upstream opened'', Status ''Session ready''],
      upstream = [], closes = [], close_throws = ct, unhandled = []\<rparr>"
  by (simp add: run_Cons run_Nil accept_eq connect_resolved_def send_def Let_def)

theorem one_live_session_witness:
  "run [ConnectResolved] (accept False) = run [ConnectResolved] (accept False)
   \<and> ws_open (run [ConnectResolved] (accept False))
   \<and> listening (run [ConnectResolved] (accept False))
   \<and> session (run [ConnectResolved] (accept False)) = Some 0
   \<and> 0 \<in> live (run [ConnectResolved] (accept False))
   \<and> live (step (WsMessage reset_frame) (run [ConnectResolved] (accept False))) = {}
   \<and> closes (step (WsMessage reset_frame) (run [ConnectResolved] (accept False))) = [0]
   \<and> pending (step (WsMessage reset_frame) (run [ConnectResolved] (accept False)))
        = Some Resetting
   \<and> live (step WsClose (run [ConnectResolved] (accept False))) = {}
   \<and> closes (step WsClose (run [ConnectResolved] (accept False))) = [0]
   \<and> pending (run [] (accept False)) \<noteq> None
   \<and> session (run [] (accept False)) = None
   \<and> step (WsMessage reset_frame) (run [] (accept False)) = run [] (accept False)
   \<and> live (step ConnectResolved (run [] (accept False))) = {0}"
proof -
  note a = one_live_session[OF refl, of "[ConnectResolved]" False 0]
  note b = one_live_session[OF refl, of "[]" False 0]
  have f: "ws_open (run [ConnectResolved] (accept False))
    \<and> listening (run [ConnectResolved] (accept False))
    \<and> session (run [ConnectResolved] (accept False)) = Some 0
    \<and> 0 \<in> live (run [ConnectResolved] (accept False))
    \<and> closes (run [ConnectResolved] (accept False)) = []"
    by (simp add: first_session)
  have g: "pending (run [] (accept False)) \<noteq> None \<and> next_sid (run [] (accept False)) = 0
    \<and> session (run [] (accept False)) = None"
    by (simp add: run_Nil accept_eq)
  show ?thesis using a b f g by simp
qed

text \<open>
  C1 as stated fails: of two resets in a row the second arrives while the connect of the first
  is awaited and no session is held; it is dropped, so the two resets create one session, not
  two.
\<close>

theorem second_reset_creates_nothing:
  "run [ConnectResolved, WsMessage reset_frame, WsMessage reset_frame] (accept False)
     = run [ConnectResolved, WsMessage reset_frame] (accept False)
   \<and> session (run [ConnectResolved, WsMessage reset_frame, WsMessage reset_frame,
                     ConnectResolved] (accept False)) = Some 1
   \<and> next_sid (run [ConnectResolved, WsMessage reset_frame, WsMessage reset_frame,
                      ConnectResolved] (accept False)) = 2
   \<and> closes (run [ConnectResolved, WsMessage reset_frame, WsMessage reset_frame,
                    ConnectResolved] (accept False)) = [0]"
  by (simp add: run_Cons run_Nil accept_eq connect_resolved_def send_def Let_def
      on_message_def reset_frame_def FromClient_parse_def Session_close_def openSession_def)

text \<open>
  A socket that closes while a connect is awaited, before the listeners are registered or
  during a reset, has no session to close; the session that connects afterwards stays live.
\<close>

lemma close_while_connecting:
  "live (run [WsClose, ConnectResolved] (accept False)) = {0}
   \<and> closes (run [WsClose, ConnectResolved] (accept False)) = []
   \<and> live (run [ConnectResolved, WsMessage reset_frame, WsClose, ConnectResolved]
              (accept False)) = {1}
   \<and> closes (run [ConnectResolved, WsMessage reset_frame, WsClose, ConnectResolved]
                (accept False)) = [0]"
  by (simp add: run_Cons run_Nil accept_eq connect_resolved_def send_def Let_def
      on_message_def on_close_def reset_frame_def FromClient_parse_def Session_close_def
      openSession_def)

subsection \<open>Upstream messages after a reset\<close>

text \<open>
  C2, as amended. The relay's forwarding path carries no session generation: the effect of an
  upstream message is the same whichever session of the connection delivers it, the current one
  or one closed by an earlier reset, and with the socket open its frames are appended to what
  the client receives. What a reset does isolate is the other direction: client input goes to
  the session currently held.
\<close>

theorem upstream_forwarding_ignores_session:
  "(sid < next_sid c \<and> sid' < next_sid c \<longrightarrow>
      step (UpstreamMessage sid m) c = step (UpstreamMessage sid' m) c)
   \<and> (ws_open c \<and> sid < next_sid c \<and> turn_parts m = Some ps \<longrightarrow>
      out (step (UpstreamMessage sid m) c) = out c @ concat (map part_frames ps))
   \<and> (ws_open c \<and> listening c \<and> session c = Some s \<and> t \<noteq> [] \<longrightarrow>
      upstream (step (WsMessage (text_frame t)) c) = upstream c @ [(s, InputText t)])"
proof -
  have p: "Option.bind (text_frame t) FromClient_parse = Some (ClientText t)" if "t \<noteq> []"
    using that by (cases t) (simp_all add: text_frame_def FromClient_parse_def)
  have 3: "upstream (step (WsMessage (text_frame t)) c) = upstream c @ [(s, InputText t)]"
    if "ws_open c \<and> listening c \<and> session c = Some s \<and> t \<noteq> []"
    using that p by (simp add: on_message_def sendRealtimeInput_def)
  show ?thesis using 3 by (simp add: upstream_onmessage_eq)
qed

lemma after_reset_eq:
  "after_reset =
     \<lparr>ws_open = True, session = Some 1, pending = None, listening = True,
      next_sid = 2, live = {1},
      out = [Status ''Upstream opened'', Status ''Session ready'',
             Status ''Upstream opened'', Status ''Session ready''],
      upstream = [], closes = [0], close_throws = False, unhandled = []\<rparr>"
  by (simp add: after_reset_def run_Cons run_Nil accept_eq connect_resolved_def send_def Let_def
      on_message_def reset_frame_def FromClient_parse_def Session_close_def openSession_def)

theorem upstream_forwarding_ignores_session_witness:
  "(0::nat) < next_sid after_reset \<and> 1 < next_sid after_reset
   \<and> ws_open after_reset \<and> listening after_reset \<and> session after_reset = Some 1
   \<and> turn_parts hello_there = Some [Part (Some ''Hello'') None, Part (Some '' there'') None]
   \<and> ''hi'' \<noteq> []
   \<and> step (UpstreamMessage 0 hello_there) after_reset
       = step (UpstreamMessage 1 hello_there) after_reset
   \<and> out (step (UpstreamMessage 0 hello_there) after_reset)
       = out after_reset @ [Text ''Hello'', Text '' there'']
   \<and> upstream (step (WsMessage (text_frame ''hi'')) after_reset) = [(1, InputText ''hi'')]"
proof -
  have p: "turn_parts hello_there = Some [Part (Some ''Hello'') None, Part (Some '' there'') None]"
    by (simp add: hello_there_def turn_parts_def)
  have f: "(0::nat) < next_sid after_reset \<and> 1 < next_sid after_reset
   \<and> ws_open after_reset \<and> listening after_reset \<and> session after_reset = Some 1
   \<and> upstream after_reset = []"
    by (simp add: after_reset_eq)
  from upstream_forwarding_ignores_session[of 0 after_reset 1 hello_there
      "[Part (Some ''Hello'') None, Part (Some '' there'') None]" 1 "''hi''"]
  show ?thesis using p f by (simp add: part_frames_def)
qed

text \<open>
  C2 as stated fails: after a reset and the replacement session 1, a message delivered by the
  callback of the closed session 0 reaches the client.
\<close>

theorem stale_session_message_forwarded:
  "session after_reset = Some 1 \<and> closes after_reset = [0] \<and> live after_reset = {1}
   \<and> out (step (UpstreamMessage 0 hello_there) after_reset)
       = out after_reset @ [Text ''Hello'', Text '' there'']"
  by (simp add: after_reset_eq upstream_onmessage_eq hello_there_def turn_parts_def
      part_frames_def)

subsection \<open>Failure to open the upstream session\<close>

text \<open>
  C3, as amended. When the connect started at acceptance is rejected, the relay sends the status
  \<^verbatim>\<open>Failed to open session: <reason>\<close>, no exception escapes and the socket stays open with its
  listeners registered. While no session is held every client message, a reset included, is
  dropped without effect; a reset starts a new connect only when a session is held.
\<close>

theorem open_failure_reported:
  "step (ConnectRejected reason) (accept ct) =
     (accept ct)\<lparr>pending := None, listening := True,
                 out := [Status (''Failed to open session: '' @ reason)]\<rparr>
   \<and> (session c = None \<longrightarrow> step (WsMessage raw) c = c \<and> run (map WsMessage raws) c = c)
   \<and> (ws_open c \<and> listening c \<and> session c = Some s \<and> s \<in> live c \<longrightarrow>
        pending (step (WsMessage reset_frame) c) = Some Resetting
        \<and> session (step (WsMessage reset_frame) c) = None
        \<and> closes (step (WsMessage reset_frame) c) = closes c @ [s])"
proof -
  have 1: "step (ConnectRejected reason) (accept ct) =
     (accept ct)\<lparr>pending := None, listening := True,
                 out := [Status (''Failed to open session: '' @ reason)]\<rparr>"
    by (simp add: accept_eq connect_rejected_def send_def)
  have p: "Option.bind reset_frame FromClient_parse = Some ClientReset"
    by (simp add: reset_frame_def FromClient_parse_def)
  have 3: "pending (step (WsMessage reset_frame) c) = Some Resetting
        \<and> session (step (WsMessage reset_frame) c) = None
        \<and> closes (step (WsMessage reset_frame) c) = closes c @ [s]"
    if "ws_open c \<and> listening c \<and> session c = Some s \<and> s \<in> live c"
    using that by (simp add: on_message_def p Session_close_def openSession_def)
  show ?thesis using 1 3 step_message_no_session run_messages_no_session by blast
qed

lemma failed_open_eq:
  "failed_open =
     \<lparr>ws_open = True, session = None, pending = None, listening = True,
      next_sid = 0, live = {}, out = [Status ''Failed to open session: boom''],
      upstream = [], closes = [], close_throws = False, unhandled = []\<rparr>"
  by (simp add: failed_open_def run_Cons run_Nil accept_eq connect_rejected_def send_def)

theorem open_failure_reported_witness:
  "out (step (ConnectRejected ''boom'') (accept False)) = [Status ''Failed to open session: boom'']
   \<and> session failed_open = None
   \<and> run (map WsMessage [reset_frame, text_frame ''hi'']) failed_open = failed_open
   \<and> ws_open (run [ConnectResolved] (accept False))
   \<and> listening (run [ConnectResolved] (accept False))
   \<and> session (run [ConnectResolved] (accept False)) = Some 0
   \<and> 0 \<in> live (run [ConnectResolved] (accept False))
   \<and> pending (step (WsMessage reset_frame) (run [ConnectResolved] (accept False)))
       = Some Resetting"
proof -
  note a = open_failure_reported[of "''boom''" False failed_open reset_frame
      "[reset_frame, text_frame ''hi'']" 0]
  note b = open_failure_reported[of "''boom''" False "run [ConnectResolved] (accept False)"
      reset_frame "[]" 0]
  have f: "session failed_open = None" by (simp add: failed_open_eq)
  have g: "ws_open (run [ConnectResolved] (accept False))
   \<and> listening (run [ConnectResolved] (accept False))
   \<and> session (run [ConnectResolved] (accept False)) = Some 0
   \<and> 0 \<in> live (run [ConnectResolved] (accept False))"
    by (simp add: first_session)
  show ?thesis using a b f g by (simp add: accept_eq)
qed

text \<open>
  C3 as stated fails: after a rejected first connect, a reset from the client starts no connect;
  the connection is as it was before the reset.
\<close>

theorem reset_after_failed_open_dropped:
  "run [ConnectRejected ''boom'', WsMessage reset_frame] (accept False)
     = run [ConnectRejected ''boom''] (accept False)
   \<and> pending (run [ConnectRejected ''boom'', WsMessage reset_frame] (accept False)) = None
   \<and> session (run [ConnectRejected ''boom'', WsMessage reset_frame] (accept False)) = None
   \<and> ws_open (run [ConnectRejected ''boom'', WsMessage reset_frame] (accept False))"
  by (simp add: run_Cons run_Nil accept_eq connect_rejected_def send_def on_message_def)

subsection \<open>Malformed client frames\<close>

text \<open>
  C4, as amended. While a session is held and the socket is open, a client frame that fails to
  parse or to validate makes the relay send exactly one status \<^verbatim>\<open>Bad client message\<close> and
  changes nothing else: the frame is dropped and the socket stays open. Validation fails for
  text that is not JSON, for a value that is not an object, for a missing or unrecognized
  \<^verbatim>\<open>type\<close>, and for a missing or empty \<^verbatim>\<open>text\<close> or \<^verbatim>\<open>base64\<close>. While no session is held the frame
  is dropped without any status.
\<close>

theorem bad_client_message:
  "(ws_open c \<and> listening c \<and> session c = Some s \<and> Option.bind raw FromClient_parse = None \<longrightarrow>
      step (WsMessage raw) c = c\<lparr>out := out c @ [Status ''Bad client message'']\<rparr>)
   \<and> (session c = None \<longrightarrow> out (step (WsMessage raw) c) = out c)
   \<and> Option.bind None FromClient_parse = None
   \<and> FromClient_parse JNull = None \<and> FromClient_parse (JArr js) = None
   \<and> (map_of kvs ''type'' = None \<longrightarrow> FromClient_parse (JObj kvs) = None)
   \<and> (map_of kvs ''type'' = Some (JStr t) \<and> t \<noteq> ''text'' \<and> t \<noteq> ''audio'' \<and> t \<noteq> ''reset'' \<longrightarrow>
        FromClient_parse (JObj kvs) = None)
   \<and> (map_of kvs ''type'' = Some (JStr ''text'')
        \<and> (map_of kvs ''text'' = None \<or> map_of kvs ''text'' = Some (JStr [])) \<longrightarrow>
        FromClient_parse (JObj kvs) = None)
   \<and> (map_of kvs ''type'' = Some (JStr ''audio'')
        \<and> (map_of kvs ''base64'' = None \<or> map_of kvs ''base64'' = Some (JStr [])) \<longrightarrow>
        FromClient_parse (JObj kvs) = None)"
proof -
  have 1: "step (WsMessage raw) c = c\<lparr>out := out c @ [Status ''Bad client message'']\<rparr>"
    if "ws_open c \<and> listening c \<and> session c = Some s \<and> Option.bind raw FromClient_parse = None"
    using that by (simp add: on_message_def send_def)
  have 2: "out (step (WsMessage raw) c) = out c" if "session c = None"
    by (simp only: step_message_no_session[OF that])
  have 3: "FromClient_parse (JObj kvs) = None"
    if "map_of kvs ''type'' = Some (JStr ''text'')
        \<and> (map_of kvs ''text'' = None \<or> map_of kvs ''text'' = Some (JStr []))"
    using that by (auto simp: FromClient_parse_def)
  have 4: "FromClient_parse (JObj kvs) = None"
    if "map_of kvs ''type'' = Some (JStr ''audio'')
        \<and> (map_of kvs ''base64'' = None \<or> map_of kvs ''base64'' = Some (JStr []))"
    using that by (auto simp: FromClient_parse_def)
  have 5: "FromClient_parse (JObj kvs) = None"
    if "map_of kvs ''type'' = Some (JStr t) \<and> t \<noteq> ''text'' \<and> t \<noteq> ''audio'' \<and> t \<noteq> ''reset''"
    using that by (simp add: FromClient_parse_def)
  have 6: "FromClient_parse (JObj kvs) = None" if "map_of kvs ''type'' = None"
    using that by (simp add: FromClient_parse_def)
  have 7: "Option.bind None FromClient_parse = None
   \<and> FromClient_parse JNull = None \<and> FromClient_parse (JArr js) = None"
    by (simp add: FromClient_parse_def)
  show ?thesis using 1 2 3 4 5 6 7 by blast
qed

theorem bad_client_message_witness:
  "ws_open (run [ConnectResolved] (accept False))
   \<and> listening (run [ConnectResolved] (accept False))
   \<and> session (run [ConnectResolved] (accept False)) = Some 0
   \<and> Option.bind (Some (JObj [(''type'', JStr ''text''), (''text'', JStr [])])) FromClient_parse = None
   \<and> out (step (WsMessage (Some (JObj [(''type'', JStr ''text''), (''text'', JStr [])])))
          (run [ConnectResolved] (accept False)))
       = [Status ''Upstream opened'', Status ''Session ready'', Status ''Bad client message'']
   \<and> ws_open (step (WsMessage (Some (JObj [(''type'', JStr ''text''), (''text'', JStr [])])))
          (run [ConnectResolved] (accept False)))
   \<and> map_of [(''type'', JStr ''ping'')] ''type'' = Some (JStr ''ping'')
   \<and> FromClient_parse (JObj [(''type'', JStr ''ping'')]) = None
   \<and> session failed_open = None
   \<and> out (step (WsMessage None) failed_open) = out failed_open"
proof -
  note a = bad_client_message[of "run [ConnectResolved] (accept False)" 0
      "Some (JObj [(''type'', JStr ''text''), (''text'', JStr [])])" "[]"
      "[(''type'', JStr ''ping'')]" "''ping''"]
  note b = bad_client_message[of failed_open 0 None "[]" "[]" "[]"]
  have p: "Option.bind (Some (JObj [(''type'', JStr ''text''), (''text'', JStr [])])) FromClient_parse = None"
    by (simp add: FromClient_parse_def)
  have f: "session failed_open = None" by (simp add: failed_open_eq)
  show ?thesis using a b p f by (simp add: first_session)
qed

text \<open>
  C4 as stated fails: a frame that is not JSON, received while a reset waits for its connect,
  produces no status at all.
\<close>

theorem bad_message_mid_reset_silent:
  "out (run [ConnectResolved, WsMessage reset_frame, WsMessage None] (accept False))
     = [Status ''Upstream opened'', Status ''Session ready'']
   \<and> ws_open (run [ConnectResolved, WsMessage reset_frame, WsMessage None] (accept False))
   \<and> listening (run [ConnectResolved, WsMessage reset_frame, WsMessage None] (accept False))"
  by (simp add: run_Cons run_Nil accept_eq connect_resolved_def send_def Let_def
      on_message_def reset_frame_def FromClient_parse_def Session_close_def openSession_def)

subsection \<open>Samples to 16-bit integers\<close>

lemma sint_int16: "- 32768 \<le> v \<Longrightarrow> v \<le> 32767 \<Longrightarrow> sint (word_of_int v :: int16) = v"
  by (simp add: signed_of_int signed_take_bit_int_eq_self)

lemma js_trunc_neg_range: "- 1 \<le> s \<Longrightarrow> s < 0 \<Longrightarrow> - 32768 \<le> js_trunc (s * 32768) \<and> js_trunc (s * 32768) \<le> 0"
proof -
  assume a: "- 1 \<le> s" "s < 0"
  then have "- 32768 \<le> s * 32768" "s * 32768 < 0" by simp_all
  then have "- 32768 \<le> \<lceil>s * 32768\<rceil>" "\<lceil>s * 32768\<rceil> \<le> 0"
    by (simp_all add: le_ceiling_iff ceiling_le_iff)
  then show ?thesis using a by (simp add: js_trunc_def)
qed

lemma js_trunc_pos_range: "0 \<le> s \<Longrightarrow> s \<le> 1 \<Longrightarrow> 0 \<le> js_trunc (s * 32767) \<and> js_trunc (s * 32767) \<le> 32767"
proof -
  assume a: "0 \<le> s" "s \<le> 1"
  then have "0 \<le> s * 32767" "s * 32767 \<le> 32767" by simp_all
  then have "0 \<le> \<lfloor>s * 32767\<rfloor>" "\<lfloor>s * 32767\<rfloor> \<le> 32767"
    by (simp_all add: floor_le_iff le_floor_iff)
  then show ?thesis using a by (simp add: js_trunc_def)
qed

lemma sample_value: "sint (ToInt16 (scale (clamp f))) = encode_sample_spec f"
proof (cases f)
  case NaN
  then show ?thesis by (simp add: ToInt16_def scale_def encode_sample_spec_def)
next
  case NegInf
  then show ?thesis by (simp add: ToInt16_def scale_def encode_sample_spec_def js_trunc_def)
next
  case PosInf
  then show ?thesis by (simp add: ToInt16_def scale_def encode_sample_spec_def js_trunc_def)
next
  case (Finite x)
  define s where "s = max (- 1) (min 1 x)"
  have s: "s = (if x < - 1 then - 1 else if 1 < x then 1 else x)"
    by (simp add: s_def max_def min_def)
  have r: "- 1 \<le> s" "s \<le> 1" by (simp_all add: s_def)
  show ?thesis
  proof (cases "s < 0")
    case True
    with js_trunc_neg_range[OF r(1) True] show ?thesis
      using Finite s by (simp add: ToInt16_def scale_def encode_sample_spec_def s_def[symmetric] sint_int16 Let_def)
  next
    case False
    then have z: "0 \<le> s" by simp
    have e: "(if 0 < s then s * 32767 else s * 32768) = s * 32767" using z by auto
    from js_trunc_pos_range[OF z r(2)] show ?thesis
      using Finite s False e
      by (simp add: ToInt16_def scale_def encode_sample_spec_def s_def[symmetric] sint_int16 Let_def)
  qed
qed

lemma encode_sample_spec_range: "- 32768 \<le> encode_sample_spec f \<and> encode_sample_spec f \<le> 32767"
  using sint_range_size[of "ToInt16 (scale (clamp f))"] by (simp add: sample_value word_size)

lemma length_int16_bytes: "length (int16_bytes ws) = 2 * length ws"
  by (induction ws) simp_all

lemma byte_pair_int16: "ucast (ucast w :: byte) OR push_bit 8 (ucast (ucast (drop_bit 8 w) :: byte)) = (w :: int16)"
  by (rule bit_word_eqI) (auto simp: bit_simps)

lemma bytes_int16_bytes: "bytes_int16 (int16_bytes ws) = ws"
  by (induction ws) (simp_all add: byte_pair_int16)

lemma int16_bytes_nth:
  "i < length ws \<Longrightarrow>
     int16_bytes ws ! (2 * i) = ucast (ws ! i) \<and> int16_bytes ws ! (2 * i + 1) = ucast (drop_bit 8 (ws ! i))"
proof (induction ws arbitrary: i)
  case Nil
  then show ?case by simp
next
  case (Cons w ws)
  then show ?case by (cases i) simp_all
qed

lemma unat_low_high: "unat (w :: int16) = unat (ucast w :: byte) + 256 * unat (ucast (drop_bit 8 w) :: byte)"
proof -
  have "unat (ucast w :: byte) = unat w mod 256"
    by (simp add: unsigned_ucast_eq take_bit_eq_mod)
  moreover have "unat (ucast (drop_bit 8 w) :: byte) = unat w div 256"
    using unsigned_less[of w, where ?'a=nat]
    by (simp add: unsigned_ucast_eq take_bit_eq_mod unat_drop_bit_eq drop_bit_eq_div unat_div)
  ultimately show ?thesis by simp
qed

subsection \<open>Base64\<close>

lemma b64val_table: "map b64val b64chars = map Some [0..<64]"
  by (simp add: b64val_def b64chars_def upt_rec)

lemma length_b64chars: "length b64chars = 64"
  by (simp add: b64chars_def)

lemma b64val_enc: "d < 64 \<Longrightarrow> b64val (b64enc d) = Some d"
proof -
  assume d: "d < 64"
  then have "b64val (b64chars ! d) = map b64val b64chars ! d"
    by (simp add: length_b64chars)
  also have "\<dots> = Some d" using d by (simp only: b64val_table) simp
  finally show ?thesis using d by (simp add: b64enc_def)
qed

lemma b64val_enc_mod: "b64val (b64enc d) = Some (d mod 64)"
  using b64val_enc[of "d mod 64"] by (simp add: b64enc_def)

lemma b64val_not_special: "b64val c = Some v \<Longrightarrow> \<not> ascii_whitespace c \<and> c \<noteq> CHR ''=''"
  by (auto simp: b64val_def ascii_whitespace_def Let_def split: if_splits)

lemma b64enc_plain: "\<not> ascii_whitespace (b64enc d) \<and> b64enc d \<noteq> CHR ''=''"
  by (rule b64val_not_special[OF b64val_enc_mod])

lemma unat_byte_less: "unat (a :: byte) < 256"
  using unsigned_less[of a, where ?'a=nat] by simp

lemma hi16: "y < 16 \<Longrightarrow> ((x::nat) * 16 + y) div 16 = x \<and> (x * 16 + y) mod 16 = y"
  by simp

lemma hi4: "y < 4 \<Longrightarrow> ((x::nat) * 4 + y) div 4 = x \<and> (x * 4 + y) mod 4 = y"
  by simp

lemma d16: "b < 256 \<Longrightarrow> (b::nat) div 16 < 16"
  by (simp add: less_mult_imp_div_less)

lemma d64: "b < 256 \<Longrightarrow> (b::nat) div 64 < 4"
  by (simp add: less_mult_imp_div_less)

lemma sextet_1:
  "unat a div 4 * 4 + (unat a mod 4 * 16 + unat b div 16) div 16 = unat a"
  for a b :: byte
  using hi16[OF d16[OF unat_byte_less[of b]], of "unat a mod 4"] by simp

lemma sextet_2s:
  "(unat a mod 4 * 16 + unat b div 16) mod 16 * 16 + unat b mod 16 * 4 div 4 = unat b"
  for a b :: byte
  using hi16[OF d16[OF unat_byte_less[of b]], of "unat a mod 4"] by simp

lemma sextet_2:
  "(unat a mod 4 * 16 + unat b div 16) mod 16 * 16 + (unat b mod 16 * 4 + unat c div 64) div 4
     = unat b"
  for a b c :: byte
  using hi16[OF d16[OF unat_byte_less[of b]], of "unat a mod 4"]
    hi4[OF d64[OF unat_byte_less[of c]], of "unat b mod 16"] by simp

lemma sextet_3:
  "(unat b mod 16 * 4 + unat c div 64) mod 4 * 64 + unat c mod 64 = unat c"
  for b c :: byte
  using hi4[OF d64[OF unat_byte_less[of c]], of "unat b mod 16"] by simp

lemma sextet_less:
  "unat a div 4 < 64"
  "unat a mod 4 * 16 < 64"
  "unat a mod 4 * 16 + unat b div 16 < 64"
  "unat b mod 16 * 4 < 64"
  "unat b mod 16 * 4 + unat c div 64 < 64"
  for a b c :: byte
proof -
  have m4: "unat a mod 4 < 4" and m16: "unat b mod 16 < 16" by simp_all
  show "unat a div 4 < 64" using unat_byte_less[of a] by (simp add: less_mult_imp_div_less)
  show "unat a mod 4 * 16 < 64" using m4 by linarith
  show "unat a mod 4 * 16 + unat b div 16 < 64"
    using m4 d16[OF unat_byte_less[of b]] by linarith
  show "unat b mod 16 * 4 < 64" using m16 by linarith
  show "unat b mod 16 * 4 + unat c div 64 < 64"
    using m16 d64[OF unat_byte_less[of c]] by linarith
qed

lemma b64digits_less: "d \<in> set (b64digits bs) \<Longrightarrow> d < 64"
proof (induction bs arbitrary: d rule: b64digits.induct)
  case 1
  then show ?case by simp
next
  case (2 a)
  then show ?case using sextet_less(1,2)[of a] by auto
next
  case (3 a b)
  then show ?case
    using sextet_less(1)[of a] sextet_less(3)[of a b] sextet_less(4)[of b] by auto
next
  case (4 a b c rest)
  then show ?case
    using sextet_less(1)[of a] sextet_less(3)[of a b] sextet_less(5)[of b c]
      sextet_less(1)[of c] by auto
qed

lemma b64_groups_digits: "b64_groups (b64digits bs) = bs"
proof (induction bs rule: b64digits.induct)
  case 1
  then show ?case by simp
next
  case (2 a)
  then show ?case by simp
next
  case (3 a b)
  have "b64_groups (b64digits [a, b]) = [of_nat (unat a), of_nat (unat b)]"
    by (simp only: b64digits.simps b64_groups.simps sextet_1 sextet_2s)
  then show ?case by simp
next
  case (4 a b c rest)
  have "b64_groups (b64digits (a # b # c # rest)) =
        [of_nat (unat a), of_nat (unat b), of_nat (unat c)] @ b64_groups (b64digits rest)"
    by (simp only: b64digits.simps b64_groups.simps append_Cons append_Nil
        sextet_1 sextet_2 sextet_3)
  then show ?case using "4.IH" by simp
qed


lemma length_btoa: "length (btoa bs) mod 4 = 0"
  by (induction bs rule: btoa.induct) simp_all

lemma btoa_no_whitespace: "filter (\<lambda>c. \<not> ascii_whitespace c) (btoa bs) = btoa bs"
proof -
  have e: "\<not> ascii_whitespace (CHR ''='')" by (simp add: ascii_whitespace_def)
  show ?thesis
    by (induction bs rule: btoa.induct) (simp_all add: b64enc_plain e)
qed

lemma strip_padding_group:
  assumes "length s mod 4 = 0" and "z \<noteq> CHR ''=''"
  shows "strip_padding ([w, x, y, z] @ s) = [w, x, y, z] @ strip_padding s"
proof (cases s)
  case Nil
  then show ?thesis using assms by (simp add: strip_padding_def)
next
  case (Cons c s')
  with assms(1) have l: "2 \<le> length s" by (cases s') auto
  then have n: "s \<noteq> []" "butlast s \<noteq> []" by (auto simp: Cons)
  have m: "length ([w, x, y, z] @ s) mod 4 = 0" using assms(1) by simp
  have b: "butlast ([w, x, y, z] @ s) = [w, x, y, z] @ butlast s"
    "butlast (butlast ([w, x, y, z] @ s)) = [w, x, y, z] @ butlast (butlast s)"
    "last ([w, x, y, z] @ s) = last s"
    "last (butlast ([w, x, y, z] @ s)) = last (butlast s)"
    using n by (simp_all add: butlast_append)
  show ?thesis
    unfolding strip_padding_def b using m assms(1) l n by simp
qed

lemma strip_padding_btoa: "strip_padding (btoa bs) = map b64enc (b64digits bs)"
proof (induction bs rule: btoa.induct)
  case 1
  then show ?case by (simp add: strip_padding_def)
next
  case (2 a)
  then show ?case by (simp add: strip_padding_def)
next
  case (3 a b)
  then show ?case by (simp add: strip_padding_def b64enc_plain)
next
  case (4 a b c rest)
  have "strip_padding (btoa (a # b # c # rest)) =
        [b64enc (unat a div 4), b64enc (unat a mod 4 * 16 + unat b div 16),
         b64enc (unat b mod 16 * 4 + unat c div 64), b64enc (unat c mod 64)]
        @ strip_padding (btoa rest)"
    unfolding btoa.simps by (rule strip_padding_group[OF length_btoa]) (simp add: b64enc_plain)
  then show ?case using "4.IH" by simp
qed

lemma length_b64digits: "length (b64digits bs) mod 4 \<noteq> 1"
  by (induction bs rule: b64digits.induct) simp_all

lemma those_b64val_enc:
  "\<forall>d \<in> set ds. d < 64 \<Longrightarrow> those (map b64val (map b64enc ds)) = Some ds"
  by (induction ds) (simp_all add: b64val_enc)

lemma atob_btoa: "atob (btoa bs) = Inr bs"
proof -
  have "those (map b64val (map b64enc (b64digits bs))) = Some (b64digits bs)"
    by (rule those_b64val_enc) (simp add: b64digits_less)
  then show ?thesis
    using length_b64digits[of bs]
    by (simp add: atob_def btoa_no_whitespace strip_padding_btoa b64_groups_digits)
qed

lemma those_None: "c \<in> set d \<Longrightarrow> f c = None \<Longrightarrow> those (map f d) = None"
  by (induction d) (auto split: option.splits)

lemma set_strip_padding: "c \<in> set s \<Longrightarrow> c \<noteq> CHR ''='' \<Longrightarrow> c \<in> set (strip_padding s)"
proof -
  assume c: "c \<in> set s" "c \<noteq> CHR ''=''"
  have 1: "c \<in> set (butlast t)" if "c \<in> set t" "last t = CHR ''=''" for t
    using that c(2) by (cases t rule: rev_cases) auto
  show ?thesis using c 1[of s] 1[of "butlast s"]
    by (auto simp: strip_padding_def)
qed

lemma atob_invalid:
  assumes "c \<in> set s" "b64val c = None" "c \<noteq> CHR ''=''" "\<not> ascii_whitespace c"
  shows "atob s = Inl InvalidCharacterError"
proof -
  have "c \<in> set (filter (\<lambda>c. \<not> ascii_whitespace c) s)" using assms(1,4) by simp
  then have "c \<in> set (strip_padding (filter (\<lambda>c. \<not> ascii_whitespace c) s))"
    using assms(3) by (rule set_strip_padding)
  then have "those (map b64val (strip_padding (filter (\<lambda>c. \<not> ascii_whitespace c) s))) = None"
    using assms(2) by (rule those_None)
  then show ?thesis by (simp add: atob_def Let_def)
qed

subsection \<open>The encoder\<close>

text \<open>
  C8. For every list of samples, \<^verbatim>\<open>float32ToPCM16Base64\<close> is a total function whose 16-bit
  values, read as signed integers, are the specification's encoding of the samples: clamped to
  \<open>[-1, 1]\<close>, scaled by 32767 when positive and by 32768 when negative, with NaN as 0, and
  always within the signed 16-bit range, so the store never wraps. Each value is written as two
  bytes, low byte first, and the base64 text decodes back to exactly these bytes.
\<close>

theorem encode_pcm16:
  "map sint (float32ToPCM16 xs) = map encode_sample_spec xs
   \<and> length (float32ToPCM16 xs) = length xs
   \<and> (i < length xs \<and> xs ! i = NaN \<longrightarrow> float32ToPCM16 xs ! i = 0)
   \<and> - 32768 \<le> encode_sample_spec f \<and> encode_sample_spec f \<le> 32767
   \<and> length (int16_bytes ws) = 2 * length ws
   \<and> (j < length ws \<longrightarrow>
        unat (ws ! j) = unat (int16_bytes ws ! (2 * j)) + 256 * unat (int16_bytes ws ! (2 * j + 1)))
   \<and> base64ToArrayBuffer (float32ToPCM16Base64 xs) = Inr (int16_bytes (float32ToPCM16 xs))"
proof -
  have 1: "map sint (float32ToPCM16 xs) = map encode_sample_spec xs"
    by (simp add: float32ToPCM16_def sample_value)
  have 2: "float32ToPCM16 xs ! i = 0" if "i < length xs \<and> xs ! i = NaN"
    using that by (simp add: float32ToPCM16_def ToInt16_def scale_def)
  have 3: "unat (ws ! j) = unat (int16_bytes ws ! (2 * j)) + 256 * unat (int16_bytes ws ! (2 * j + 1))"
    if "j < length ws"
    using int16_bytes_nth[OF that] unat_low_high[of "ws ! j"] by simp
  have 4: "base64ToArrayBuffer (float32ToPCM16Base64 xs) = Inr (int16_bytes (float32ToPCM16 xs))"
    by (simp add: base64ToArrayBuffer_def float32ToPCM16Base64_def atob_btoa)
  have 5: "length (float32ToPCM16 xs) = length xs" by (simp add: float32ToPCM16_def)
  show ?thesis using 1 2 3 4 5 encode_sample_spec_range[of f] length_int16_bytes[of ws] by blast
qed

theorem encode_pcm16_witness:
  "float32ToPCM16 [Finite (1 / 2), Finite (- (1 / 2)), NaN, Finite 2, NegInf]
     = [16383, - 16384, 0, 32767, - 32768]
   \<and> (2::nat) < length [Finite (1 / 2), Finite (- (1 / 2)), NaN, Finite 2, NegInf]
   \<and> [Finite (1 / 2), Finite (- (1 / 2)), NaN, Finite 2, NegInf] ! 2 = NaN
   \<and> map encode_sample_spec [Finite (1 / 2), Finite (- (1 / 2)), NaN, Finite 2, NegInf]
     = [16383, - 16384, 0, 32767, - 32768]
   \<and> (0::nat) < length [16383 :: int16]
   \<and> int16_bytes [16383] = [255, 63]
   \<and> float32ToPCM16Base64 [Finite (1 / 2), Finite (- (1 / 2)), NaN] = ''/z8AwAAA''
   \<and> base64ToArrayBuffer ''/z8AwAAA'' = Inr [255, 63, 0, 192, 0, 0]"
proof -
  have v: "float32ToPCM16 [Finite (1 / 2), Finite (- (1 / 2)), NaN, Finite 2, NegInf]
     = [16383, - 16384, 0, 32767, - 32768]"
    "float32ToPCM16 [Finite (1 / 2), Finite (- (1 / 2)), NaN] = [16383, - 16384, 0]"
    by (simp_all add: float32ToPCM16_def ToInt16_def scale_def js_trunc_def)
  have b: "float32ToPCM16Base64 [Finite (1 / 2), Finite (- (1 / 2)), NaN] = ''/z8AwAAA''"
    by (simp add: float32ToPCM16Base64_def v b64enc_def b64chars_def)
  note a = encode_pcm16[of "[Finite (1 / 2), Finite (- (1 / 2)), NaN, Finite 2, NegInf]" 2 NaN
      "[16383]" 0]
  note c = encode_pcm16[of "[Finite (1 / 2), Finite (- (1 / 2)), NaN]" 2 NaN "[16383]" 0]
  have s: "map sint [16383, - 16384, 0, 32767, - 32768 :: int16]
            = [16383, - 16384, 0, 32767, - 32768]"
    by simp
  show ?thesis using a c by (simp add: v b s)
qed

subsection \<open>The decoding paths\<close>

text \<open>
  C9, as amended. In the relay client \<^verbatim>\<open>base64ToArrayBuffer\<close> fails with the exception of
  \<^verbatim>\<open>atob\<close> on any character that is neither of the base64 alphabet, nor \<^verbatim>\<open>=\<close>, nor ASCII
  whitespace, and the listener then drops the frame; on the text that \<^verbatim>\<open>btoa\<close> produced it
  returns the bytes. The relay decodes with \<^verbatim>\<open>Buffer.from(s, 'base64')\<close>, which never fails:
  every non-empty \<^verbatim>\<open>base64\<close> string is turned into bytes and forwarded upstream. The PCM
  decoder of the specification fails with \<^verbatim>\<open>MalformedAudioError\<close> on an odd number of bytes and
  otherwise reads 16-bit little-endian values and divides them by 32768.
\<close>

theorem decode_paths:
  "(c \<in> set s \<and> b64val c = None \<and> c \<noteq> CHR ''='' \<and> \<not> ascii_whitespace c \<longrightarrow>
      base64ToArrayBuffer s = Inl InvalidCharacterError
      \<and> ws_onmessage now dec (Audio s mt) g = g)
   \<and> base64ToArrayBuffer (btoa bs) = Inr bs
   \<and> (ws_open k \<and> listening k \<and> session k = Some sid \<and> b \<noteq> [] \<longrightarrow>
        step (WsMessage (audio_frame b)) k
          = k\<lparr>upstream := upstream k @ [(sid, InputMedia (Buffer_from_base64 b))]\<rparr>)
   \<and> (length bs mod 2 \<noteq> 0 \<longrightarrow> decode bs = Inl MalformedAudioError)
   \<and> decode (int16_bytes ws) = Inr (map (\<lambda>w. real_of_int (sint w) / 32768) ws)"
proof -
  have 1: "base64ToArrayBuffer s = Inl InvalidCharacterError
      \<and> ws_onmessage now dec (Audio s mt) g = g"
    if "c \<in> set s \<and> b64val c = None \<and> c \<noteq> CHR ''='' \<and> \<not> ascii_whitespace c"
  proof -
    have "atob s = Inl InvalidCharacterError" using that atob_invalid by blast
    then show ?thesis by (simp add: base64ToArrayBuffer_def ws_onmessage_def)
  qed
  have 2: "base64ToArrayBuffer (btoa bs) = Inr bs"
    by (simp add: base64ToArrayBuffer_def atob_btoa)
  have p: "Option.bind (audio_frame b) FromClient_parse = Some (ClientAudio b)" if "b \<noteq> []"
    using that by (cases b) (simp_all add: audio_frame_def FromClient_parse_def)
  have 3: "step (WsMessage (audio_frame b)) k
          = k\<lparr>upstream := upstream k @ [(sid, InputMedia (Buffer_from_base64 b))]\<rparr>"
    if "ws_open k \<and> listening k \<and> session k = Some sid \<and> b \<noteq> []"
    using that p by (simp add: on_message_def sendRealtimeInput_def)
  have 4: "decode bs = Inl MalformedAudioError" if "length bs mod 2 \<noteq> 0"
    using that by (simp add: decode_def)
  have 5: "decode (int16_bytes ws) = Inr (map (\<lambda>w. real_of_int (sint w) / 32768) ws)"
    by (simp add: decode_def length_int16_bytes bytes_int16_bytes)
  show ?thesis using 1 2 3 4 5 by blast
qed

theorem decode_paths_witness:
  "CHR ''!'' \<in> set ''/z8A!AA='' \<and> b64val (CHR ''!'') = None \<and> CHR ''!'' \<noteq> CHR ''=''
   \<and> \<not> ascii_whitespace (CHR ''!'')
   \<and> base64ToArrayBuffer ''/z8A!AA='' = Inl InvalidCharacterError
   \<and> ws_onmessage 1 (\<lambda>ab. Some 2) (Audio ''/z8A!AA='' ''audio/pcm'') idle = idle
   \<and> ws_open (run [ConnectResolved] (accept False))
   \<and> listening (run [ConnectResolved] (accept False))
   \<and> session (run [ConnectResolved] (accept False)) = Some 0
   \<and> ''/z8A'' \<noteq> []
   \<and> upstream (step (WsMessage (audio_frame ''/z8A'')) (run [ConnectResolved] (accept False)))
       = [(0, InputMedia [255, 63, 0])]
   \<and> length [255, 63, 0 :: byte] mod 2 \<noteq> 0
   \<and> decode [255, 63, 0] = Inl MalformedAudioError
   \<and> decode (int16_bytes [16383, - 16384]) = Inr [16383 / 32768, - (1 / 2)]"
proof -
  note a = decode_paths[of "CHR ''!''" "''/z8A!AA=''" 1 "\<lambda>ab. Some 2" "''audio/pcm''" idle
      "[255, 63, 0]" "run [ConnectResolved] (accept False)" 0 "''/z8A''" "[16383, - 16384]"]
  have h: "b64val (CHR ''!'') = None \<and> \<not> ascii_whitespace (CHR ''!'')"
    by (simp add: b64val_def ascii_whitespace_def)
  have n: "Buffer_from_base64 ''/z8A'' = [255, 63, 0]"
    by (simp add: Buffer_from_base64_def unbase64_def b64val_def List.map_filter_simps)
  show ?thesis using a h n by (simp add: first_session)
qed

text \<open>
  C9 as stated fails on the relay: the frame \<^verbatim>\<open>{"type":"audio","base64":"!!!!"}\<close>, in which no
  character is of the base64 alphabet, raises nothing; it is decoded to no bytes and
  forwarded upstream, and the client is told nothing.
\<close>

theorem relay_accepts_invalid_base64:
  "b64val (CHR ''!'') = None
   \<and> step (WsMessage (audio_frame ''!!!!'')) (run [ConnectResolved] (accept False))
       = (run [ConnectResolved] (accept False))\<lparr>upstream := [(0, InputMedia [])]\<rparr>"
  by (simp add: first_session on_message_def audio_frame_def FromClient_parse_def
      sendRealtimeInput_def Buffer_from_base64_def unbase64_def b64val_def
      List.map_filter_simps)

end
